theory Spec2Isabelle
  imports Complex_Main "HOL-Library.Sublist" "HOL-Library.Word"
begin

section \<open>Python strings\<close>

text \<open>
  A Python \<open>str\<close> is a sequence of code points. It is modelled as a \<open>string\<close> whose
  characters are the code points below 256; only the UTF-8 codec and the test for white
  space look at the value of a character, everything else compares characters for equality.
\<close>

definition CR :: char where "CR = CHR 0x0D"
definition LF :: char where "LF = CHR 0x0A"
definition TAB :: char where "TAB = CHR 0x09"
definition BSLASH :: char where "BSLASH = CHR 0x5C"
definition SQUOTE :: char where "SQUOTE = CHR 0x27"
definition DQUOTE :: char where "DQUOTE = CHR 0x22"

definition CRLF :: string where "CRLF = [CR, LF]"

text \<open>
  Exception objects. \<open>OSError\<close> stands for the built-in class and its subclasses
  (\<open>serialutil.SerialException\<close>, \<open>FileNotFoundError\<close>); its first argument is the value
  of the attribute \<open>errno\<close>, which is \<open>None\<close> when the exception was built from a
  message alone.
\<close>

datatype pyerr =
    ValueError string
  | TypeError string
  | IndexError string
  | UnicodeDecodeError string
  | OSError "int option" string

text \<open>\<open>str(n)\<close> for an integer: decimal digits, with a minus sign when negative.\<close>

fun str_nat :: "nat \<Rightarrow> string" where
  "str_nat n =
     (if n < 10 then [char_of (48 + n)] else str_nat (n div 10) @ [char_of (48 + n mod 10)])"

declare str_nat.simps [simp del]

definition str_int :: "int \<Rightarrow> string" where
  "str_int i = (if i < 0 then CHR ''-'' # str_nat (nat (- i)) else str_nat (nat i))"

definition str_bool :: "bool \<Rightarrow> string" where
  "str_bool b = (if b then ''True'' else ''False'')"

text \<open>\<open>str(err)\<close>.\<close>

fun err_str :: "pyerr \<Rightarrow> string" where
  "err_str (ValueError m) = m"
| "err_str (TypeError m) = m"
| "err_str (IndexError m) = m"
| "err_str (UnicodeDecodeError m) = m"
| "err_str (OSError None m) = m"
| "err_str (OSError (Some n) m) = ''[Errno '' @ str_int n @ ''] '' @ m"

text \<open>
  \<open>hasattr(err, "message")\<close> with \<open>err.message\<close>: no exception class of Python 3 used here
  has the attribute.
\<close>

fun err_message :: "pyerr \<Rightarrow> string option" where
  "err_message e = None"

text \<open>
  \<open>hasattr(err, "errno")\<close> with \<open>err.errno\<close>: \<open>None\<close> when the object has no such
  attribute, \<open>Some v\<close> when it has, \<open>v\<close> being the attribute's value.
\<close>

fun err_errno :: "pyerr \<Rightarrow> int option option" where
  "err_errno (OSError n m) = Some n"
| "err_errno e = None"

text \<open>
  \<open>s.split(sep)\<close> for a non-empty separator: the pieces between the non-overlapping
  occurrences of \<open>sep\<close>, found from left to right. \<open>cur\<close> is the piece being read.
\<close>

function split_from :: "'a list \<Rightarrow> 'a list \<Rightarrow> 'a list \<Rightarrow> 'a list list" where
  "split_from sep cur s =
     (if s = [] then [cur]
      else if sep \<noteq> [] \<and> prefix sep s then cur # split_from sep [] (drop (length sep) s)
      else split_from sep (cur @ [hd s]) (tl s))"
  by pat_completeness auto
termination
  by (relation "measure (\<lambda>(sep, cur, s). length s)") auto

declare split_from.simps [simp del]

text \<open>\<open>s.split(sep)\<close>; an empty separator raises ValueError.\<close>

definition py_split :: "string \<Rightarrow> string \<Rightarrow> pyerr + string list" where
  "py_split sep s =
     (if sep = [] then Inl (ValueError ''empty separator'') else Inr (split_from sep [] s))"

text \<open>\<open>sep.join(xs)\<close>.\<close>

fun py_join :: "'a list \<Rightarrow> 'a list list \<Rightarrow> 'a list" where
  "py_join sep [] = []"
| "py_join sep [x] = x"
| "py_join sep (x # y # ys) = x @ sep @ py_join sep (y # ys)"

text \<open>
  \<open>s.replace(old, new)\<close>: every non-overlapping occurrence of \<open>old\<close>, from left to
  right; an empty \<open>old\<close> matches before every character and at the end.
\<close>

function replace_from :: "'a list \<Rightarrow> 'a list \<Rightarrow> 'a list \<Rightarrow> 'a list" where
  "replace_from old new s =
     (if s = [] then []
      else if old \<noteq> [] \<and> prefix old s then new @ replace_from old new (drop (length old) s)
      else hd s # replace_from old new (tl s))"
  by pat_completeness auto
termination
  by (relation "measure (\<lambda>(old, new, s). length s)") auto

declare replace_from.simps [simp del]

definition py_replace :: "'a list \<Rightarrow> 'a list \<Rightarrow> 'a list \<Rightarrow> 'a list" where
  "py_replace old new s =
     (if old = [] then new @ concat (map (\<lambda>c. c # new) s) else replace_from old new s)"

text \<open>
  The number of positions of \<open>s\<close> at which \<open>sep\<close> occurs; occurrences that overlap
  are all counted. It states how often a marker occurs in a text.
\<close>

primrec count_occ :: "'a list \<Rightarrow> 'a list \<Rightarrow> nat" where
  "count_occ sep [] = 0"
| "count_occ sep (c # cs) = (if prefix sep (c # cs) then 1 else 0) + count_occ sep cs"

section \<open>The host side: upy\_serial\_cli\<close>

subsection \<open>Constants\<close>

definition EXIT_SUCCESS :: int where "EXIT_SUCCESS = 0"
definition EXIT_FAILURE :: int where "EXIT_FAILURE = 255"

definition DEFAULT_WAIT :: rat where "DEFAULT_WAIT = 1 / 10"
definition DEFAULT_SER_WRBUF_SIZE :: nat where "DEFAULT_SER_WRBUF_SIZE = 256"
definition DEFAULT_SER_RDBUF_SIZE :: nat where "DEFAULT_SER_RDBUF_SIZE = 1000"

text \<open>
  The dictionary \<open>SUBSTITUTES\<close>, as the list of its items in insertion order, which is
  the order in which a \<open>for key in SUBSTITUTES\<close> loop visits them.
\<close>

definition SUBSTITUTES :: "(string \<times> string) list" where
  "SUBSTITUTES =
     [([BSLASH], [BSLASH, BSLASH]),
      ([LF], [BSLASH, CHR ''n'']),
      ([CR], [BSLASH, CHR ''r'']),
      ([TAB], replicate 4 (CHR '' '')),
      ([SQUOTE], [BSLASH, SQUOTE])]"

definition BEG_RES :: string where "BEG_RES = ''##### BEGIN RESULTS #####''"
definition END_RES :: string where "END_RES = ''##### END RESULTS #####''"

subsection \<open>The file-transfer encoder's escaping\<close>

text \<open>
  The inner loop of \<open>serial_fwrite\<close>:
  \<open>for key in SUBSTITUTES: line = line.replace(key, SUBSTITUTES[key])\<close>.
\<close>

definition substitute :: "string \<Rightarrow> string" where
  "substitute line = foldl (\<lambda>l (key, val). py_replace key val l) line SUBSTITUTES"

subsection \<open>Process exit\<close>

text \<open>
  A call of \<open>sys.exit\<close>: what was printed on the standard error stream just before, and
  the process exit status.
\<close>

record sysexit =
  exit_stderr :: string
  exit_status :: int

text \<open>The exit status of \<open>sys.exit(arg)\<close>: zero for \<open>None\<close>, the integer otherwise.\<close>

fun sys_exit_status :: "int option \<Rightarrow> int" where
  "sys_exit_status None = 0"
| "sys_exit_status (Some n) = n"

text \<open>
  \<open>error(err)\<close>: the message, with the newline of the format string and the one that
  \<open>print\<close> adds, then \<open>sys.exit(err.errno)\<close> or \<open>sys.exit(EXIT_FAILURE)\<close>.
\<close>

definition error :: "pyerr \<Rightarrow> sysexit" where
  "error err =
     (let msg = (case err_message err of Some m \<Rightarrow> m | None \<Rightarrow> err_str err) @ [LF]
      in \<lparr>exit_stderr = msg @ [LF],
          exit_status =
            (case err_errno err of
               Some errno \<Rightarrow> sys_exit_status errno
             | None \<Rightarrow> sys_exit_status (Some EXIT_FAILURE))\<rparr>)"

text \<open>\<open>usage(is_err)\<close>; \<open>argv0\<close> is \<open>sys.argv[0]\<close>.\<close>

definition usage_text :: "string \<Rightarrow> string" where
  "usage_text argv0 =
     ''Usage: '' @ argv0 @ '' [OPTIONS] [COMMAND]'' @ [LF, LF] @
     ''OPTIONS:'' @ [LF, LF] @
     ''-b <baudrate>: '' @
     ''Baudrate for serial-connection, requires option '' @ [DQUOTE] @ ''-p'' @ [DQUOTE] @ '' '' @
     ''(Default: 9600)'' @ [LF, LF] @
     ''-i: Interactive mode, requires option '' @ [DQUOTE] @ ''-p'' @ [DQUOTE] @ '', '' @
     ''on default, non-interactive mode is used and a '' @
     ''COMMAND is expected'' @ [LF, LF] @
     ''-h: Show help'' @ [LF, LF] @
     ''-p <serial_port>: '' @
     ''Serial port / device required to setup'' @
     ''serial-connection'' @ [LF, LF] @
     ''COMMAND:'' @ [LF, LF] @
     ''Run command help to see commands.''"

definition usage :: "string \<Rightarrow> bool \<Rightarrow> sysexit" where
  "usage argv0 is_err =
     \<lparr>exit_stderr = usage_text argv0 @ [LF],
      exit_status = (if is_err then sys_exit_status (Some EXIT_FAILURE)
                     else sys_exit_status (Some EXIT_SUCCESS))\<rparr>"

subsection \<open>The result extractor\<close>

text \<open>
  \<open>extract_results(res_str)\<close>. Every \<open>ValueError\<close> raised in the \<open>try\<close> block is
  caught and handed to \<open>error\<close>, which ends the process: \<open>Inl\<close> is that exit,
  \<open>Inr\<close> the returned text. \<open>results[1::]\<close> is \<open>drop 1\<close> and \<open>results[:-1:]\<close> is
  \<open>butlast\<close>.
\<close>

definition extract_results :: "string \<Rightarrow> sysexit + string" where
  "extract_results res_str =
     (case py_split CRLF res_str of
        Inl err \<Rightarrow> Inl (error err)
      | Inr results1 \<Rightarrow>
          (case py_split BEG_RES (py_join [LF] results1) of
             Inl err \<Rightarrow> Inl (error err)
           | Inr results2 \<Rightarrow>
               if length results2 = 1 then Inl (error (ValueError ''No results found''))
               else
                 (case py_split END_RES (py_join [] (drop 1 results2)) of
                    Inl err \<Rightarrow> Inl (error err)
                  | Inr results3 \<Rightarrow>
                      if length results3 = 1 then Inl (error (ValueError ''Result incomplete''))
                      else Inr (py_join [] (butlast results3)))))"

subsection \<open>The transport session\<close>

type_synonym byte = "8 word"

text \<open>
  \<open>s.encode("utf-8")\<close> on the code points below 256: one byte below 128, two bytes from
  128 on.
\<close>

definition encode_char :: "char \<Rightarrow> byte list" where
  "encode_char c =
     (let n = (of_char c :: nat)
      in if n < 128 then [of_nat n] else [of_nat (192 + n div 64), of_nat (128 + n mod 64)])"

definition encode_utf8 :: "string \<Rightarrow> byte list" where
  "encode_utf8 s = concat (map encode_char s)"

text \<open>
  \<open>b.decode("utf-8")\<close>, for the byte strings that encode code points below 256. A valid
  encoding of a code point from 256 on has no value in this model of \<open>str\<close>; like an
  invalid byte sequence it is reported as \<open>UnicodeDecodeError\<close>.
\<close>

fun decode_utf8 :: "byte list \<Rightarrow> pyerr + string" where
  "decode_utf8 [] = Inr []"
| "decode_utf8 (b # bs) =
     (if unat b < 128 then
        (case decode_utf8 bs of Inl e \<Rightarrow> Inl e | Inr s \<Rightarrow> Inr (char_of (unat b) # s))
      else
        (case bs of
           [] \<Rightarrow> Inl (UnicodeDecodeError ''invalid start byte'')
         | b2 # bs2 \<Rightarrow>
             if (unat b = 194 \<or> unat b = 195) \<and> 128 \<le> unat b2 \<and> unat b2 < 192 then
               (case decode_utf8 bs2 of
                  Inl e \<Rightarrow> Inl e
                | Inr s \<Rightarrow> Inr (char_of ((unat b - 192) * 64 + (unat b2 - 128)) # s))
             else Inl (UnicodeDecodeError ''invalid start byte'')))"

text \<open>
  What the host does on the serial connection, in order. \<open>Write\<close> carries the bytes handed
  to \<open>ser_conn.write\<close>, \<open>Read\<close> the size asked of \<open>ser_conn.read\<close> and the bytes it
  returned.
\<close>

datatype event = Open | Close | Write "byte list" | Sleep rat | Read nat "byte list" | Flush

text \<open>
  The world of the host process: the trace of the connection, the bytes that the device
  will deliver (one element for each burst that arrives before a read times out), and the
  two output streams.
\<close>

record world =
  trace :: "event list"
  rx :: "byte list list"
  stdout :: string
  stderr :: string

definition log_event :: "event \<Rightarrow> world \<Rightarrow> world" where
  "log_event e w = w\<lparr>trace := trace w @ [e]\<rparr>"

definition ser_open :: "world \<Rightarrow> world" where
  "ser_open w = log_event Open w"

definition ser_close :: "world \<Rightarrow> world" where
  "ser_close w = log_event Close w"

definition ser_flush :: "world \<Rightarrow> world" where
  "ser_flush w = log_event Flush w"

text \<open>
  \<open>ser_conn.write(data)\<close>: the blocking write of the serial library sends all of
  \<open>data\<close> and returns its length.
\<close>

definition ser_write :: "byte list \<Rightarrow> world \<Rightarrow> nat \<times> world" where
  "ser_write data w = (length data, log_event (Write data) w)"

text \<open>
  \<open>ser_conn.read(n)\<close>: at most \<open>n\<close> bytes of the burst at hand, the rest of it
  staying in the buffer; nothing when the device is silent until the timeout.
\<close>

definition ser_read :: "nat \<Rightarrow> world \<Rightarrow> byte list \<times> world" where
  "ser_read n w =
     (case rx w of
        [] \<Rightarrow> ([], log_event (Read n []) w)
      | b # bs \<Rightarrow>
          if length b \<le> n then (b, log_event (Read n b) (w\<lparr>rx := bs\<rparr>))
          else (take n b, log_event (Read n (take n b)) (w\<lparr>rx := drop n b # bs\<rparr>)))"

definition time_sleep :: "rat \<Rightarrow> world \<Rightarrow> world" where
  "time_sleep t w = log_event (Sleep t) w"

definition print :: "string \<Rightarrow> world \<Rightarrow> world" where
  "print s w = w\<lparr>stdout := stdout w @ s @ [LF]\<rparr>"

definition helpmsg :: "string \<Rightarrow> world \<Rightarrow> world" where
  "helpmsg msg w = w\<lparr>stderr := stderr w @ msg @ [LF]\<rparr>"

text \<open>The slice \<open>s[a:b:]\<close> for indices that are not negative.\<close>

definition py_slice :: "nat \<Rightarrow> nat \<Rightarrow> 'a list \<Rightarrow> 'a list" where
  "py_slice a b s = drop a (take b s)"

text \<open>
  The loop of \<open>serial_write\<close>. Its condition holds on entry, so the body runs before the
  first test. \<open>offset\<close> and \<open>end\<close> index the characters of \<open>buf\<close>, and
  \<open>written_bytes\<close> counts encoded bytes.
\<close>

function serial_write_loop :: "string \<Rightarrow> rat \<Rightarrow> nat \<Rightarrow> nat \<Rightarrow> world \<Rightarrow> world" where
  "serial_write_loop buf t_wait offset end w =
     (let data = encode_utf8 (py_slice offset end buf);
          written_bytes = fst (ser_write data w);
          w1 = snd (ser_write data w);
          w2 = (if t_wait > 0 then time_sleep t_wait w1 else w1);
          offset' = offset + written_bytes;
          end' = offset' + DEFAULT_SER_WRBUF_SIZE
      in if written_bytes = DEFAULT_SER_WRBUF_SIZE
         then serial_write_loop buf t_wait offset' end' w2
         else w2)"
  by pat_completeness auto
termination
proof (relation "measure (\<lambda>(buf, t_wait, offset, end, w). length buf - offset)")
  show "wf (measure (\<lambda>(buf, t_wait, offset, end, w). length buf - offset))"
    by simp
next
  fix buf :: string and t_wait :: rat and offset "end" :: nat and w :: world
  fix data written_bytes w1 w2 offset' end'
  assume data: "data = encode_utf8 (py_slice offset end buf)"
    and written: "written_bytes = fst (ser_write data w)"
    and offset': "offset' = offset + written_bytes"
    and full: "written_bytes = DEFAULT_SER_WRBUF_SIZE"
  have "length data = 256"
    using written full by (simp add: ser_write_def DEFAULT_SER_WRBUF_SIZE_def)
  then have "py_slice offset end buf \<noteq> []"
    using data by (auto simp: encode_utf8_def)
  then have "offset < length buf"
    by (simp add: py_slice_def)
  then show "((buf, t_wait, offset', end', w2), (buf, t_wait, offset, end, w))
      \<in> measure (\<lambda>(buf, t_wait, offset, end, w). length buf - offset)"
    using offset' full by (simp add: DEFAULT_SER_WRBUF_SIZE_def)
qed

declare serial_write_loop.simps [simp del]

text \<open>\<open>serial_write(buf, t_wait)\<close>; \<open>None\<close> selects \<open>DEFAULT_WAIT\<close>.\<close>

definition serial_write :: "string \<Rightarrow> rat option \<Rightarrow> world \<Rightarrow> world" where
  "serial_write buf t_wait w =
     serial_write_loop buf (case t_wait of None \<Rightarrow> DEFAULT_WAIT | Some t \<Rightarrow> t)
       0 DEFAULT_SER_WRBUF_SIZE w"

text \<open>The loop of \<open>serial_read\<close>, entered with its condition true.\<close>

function serial_read_loop :: "byte list \<Rightarrow> world \<Rightarrow> byte list \<times> world" where
  "serial_read_loop result w =
     (let buf = fst (ser_read DEFAULT_SER_RDBUF_SIZE w);
          w1 = snd (ser_read DEFAULT_SER_RDBUF_SIZE w);
          read_bytes = length buf;
          result' = result @ buf;
          w2 = ser_flush w1
      in if read_bytes = DEFAULT_SER_RDBUF_SIZE then serial_read_loop result' w2
         else (result', w2))"
  by pat_completeness auto
termination
proof (relation "measure (\<lambda>(result, w). sum_list (map length (rx w)) + length (rx w))")
  show "wf (measure (\<lambda>(result, w). sum_list (map length (rx w)) + length (rx w)))"
    by simp
next
  fix result :: "byte list" and w :: world
  fix buf w1 read_bytes result' w2
  assume buf: "buf = fst (ser_read DEFAULT_SER_RDBUF_SIZE w)"
    and w1: "w1 = snd (ser_read DEFAULT_SER_RDBUF_SIZE w)"
    and n: "read_bytes = length buf"
    and w2: "w2 = ser_flush w1"
    and full: "read_bytes = DEFAULT_SER_RDBUF_SIZE"
  show "((result', w2), (result, w))
      \<in> measure (\<lambda>(result, w). sum_list (map length (rx w)) + length (rx w))"
  proof (cases "rx w")
    case Nil
    then show ?thesis
      using buf n full by (simp add: ser_read_def DEFAULT_SER_RDBUF_SIZE_def)
  next
    case (Cons b bs)
    then show ?thesis
      using buf n full w1 w2
      by (auto simp: ser_read_def ser_flush_def log_event_def DEFAULT_SER_RDBUF_SIZE_def)
  qed
qed

declare serial_read_loop.simps [simp del]

text \<open>\<open>serial_read()\<close>: the accumulated bytes, decoded.\<close>

definition serial_read :: "world \<Rightarrow> (pyerr + string) \<times> world" where
  "serial_read w =
     (decode_utf8 (fst (serial_read_loop [] w)), snd (serial_read_loop [] w))"

subsection \<open>The command encoder\<close>

text \<open>\<open>argv_to_str(argv)\<close>: each argument in double quotes, separated by a comma and a space.\<close>

fun argv_to_str :: "string list \<Rightarrow> string" where
  "argv_to_str [] = []"
| "argv_to_str [a] = [DQUOTE] @ a @ [DQUOTE]"
| "argv_to_str (a # b # bs) = [DQUOTE] @ a @ [DQUOTE] @ '', '' @ argv_to_str (b # bs)"

text \<open>The statements handed to \<open>serial_write\<close> by the commands.\<close>

definition cat_stmt :: "string list \<Rightarrow> string" where
  "cat_stmt argv = ''cat('' @ argv_to_str argv @ '')'' @ CRLF"

definition du_stmt :: "string list \<Rightarrow> int \<Rightarrow> bool \<Rightarrow> string" where
  "du_stmt args max_depth human_readable =
     ''du('' @ argv_to_str args @ '', max_depth='' @ str_int max_depth @
     '', human_readable='' @ str_bool human_readable @ '')'' @ CRLF"

definition ls_stmt :: "string list \<Rightarrow> bool \<Rightarrow> bool \<Rightarrow> bool \<Rightarrow> string" where
  "ls_stmt args human_readable list_format rec =
     ''ls('' @ argv_to_str args @ '', human_readable='' @ str_bool human_readable @
     '', list_format='' @ str_bool list_format @ '', rec='' @ str_bool rec @ '')'' @ CRLF"

definition sysinfo_stmt :: "string \<Rightarrow> string" where
  "sysinfo_stmt query = ''sysinfo(query='' @ [DQUOTE] @ query @ [DQUOTE] @ '')'' @ CRLF"

definition restore_stmt :: string where
  "restore_stmt = ''restore()'' @ CRLF"

definition is_dir_stmt :: "string \<Rightarrow> string" where
  "is_dir_stmt dest = ''is_dir('' @ [DQUOTE] @ dest @ [DQUOTE] @ '')'' @ CRLF"

definition fwrite_open_stmt :: "string \<Rightarrow> string" where
  "fwrite_open_stmt dest =
     ''fd = open('' @ [DQUOTE] @ dest @ [DQUOTE] @ '', '' @ [DQUOTE] @ ''w'' @ [DQUOTE] @ '')'' @ CRLF"

definition fwrite_write_stmt :: "string \<Rightarrow> string" where
  "fwrite_write_stmt line =
     ''fd.write('' @ [SQUOTE] @ line @ [SQUOTE] @ ''.encode('' @ [DQUOTE] @ ''utf-8'' @ [DQUOTE] @
     ''))'' @ CRLF"

definition fwrite_close_stmt :: string where
  "fwrite_close_stmt = ''fd.close()'' @ CRLF"

subsection \<open>The file-transfer encoder\<close>


subsection \<open>The commands\<close>

text \<open>How a command ends: it returns, the process exits, or an exception is not caught.\<close>

datatype status = Returned | Exited sysexit | Uncaught pyerr


text \<open>
  The exchange shared by \<open>cat\<close>, \<open>du\<close>, \<open>ls\<close> and \<open>sysinfo\<close>: open, write the
  statement, read, close, print the extracted results.
\<close>

definition exchange :: "string \<Rightarrow> world \<Rightarrow> world \<times> status" where
  "exchange stmt w =
     (let w1 = ser_open w;
          w2 = serial_write stmt None w1;
          results = fst (serial_read w2);
          w3 = snd (serial_read w2)
      in case results of
           Inl err \<Rightarrow> (w3, Uncaught err)
         | Inr res_str \<Rightarrow>
             (let w4 = ser_close w3
              in case extract_results res_str of
                   Inl ex \<Rightarrow> (w4\<lparr>stderr := stderr w4 @ exit_stderr ex\<rparr>, Exited ex)
                 | Inr r \<Rightarrow> (print r w4, Returned)))"

definition cat_help :: string where
  "cat_help =
     ''USAGE:'' @ [LF, LF] @
     ''cat [OPTIONS] <file_1> [file_2 ... file_n]'' @ [LF, LF] @
     ''DESCRIPTION:'' @ [LF, LF] @
     ''This function displays one or more files from the serial-device.'' @ [LF, LF] @
     ''OPTIONS:'' @ [LF, LF] @
     ''-h: Print help about this command''"

definition cat :: "string list \<Rightarrow> world \<Rightarrow> world \<times> status" where
  "cat argv w =
     (if length argv = 0 \<or> ''-h'' \<in> set argv then (helpmsg cat_help w, Returned)
      else exchange (cat_stmt argv) w)"

text \<open>
  \<open>du\<close>, \<open>ls\<close> and \<open>sysinfo\<close> after their options are parsed: the arguments are the
  values of the local variables that the option loop has set.
\<close>

definition du :: "string list \<Rightarrow> int \<Rightarrow> bool \<Rightarrow> world \<Rightarrow> world \<times> status" where
  "du args max_depth human_readable w =
     exchange (du_stmt (if length args = 0 then [''.''] else args) max_depth human_readable) w"

definition ls :: "string list \<Rightarrow> bool \<Rightarrow> bool \<Rightarrow> bool \<Rightarrow> world \<Rightarrow> world \<times> status" where
  "ls args human_readable list_format rec w =
     exchange (ls_stmt (if length args = 0 then [''.''] else args) human_readable list_format rec) w"

definition sysinfo :: "string \<Rightarrow> world \<Rightarrow> world \<times> status" where
  "sysinfo query w = exchange (sysinfo_stmt query) w"

definition restore_help :: string where
  "restore_help =
     ''USAGE:'' @ [LF, LF] @
     ''restore [OPTIONS]'' @ [LF, LF] @
     ''DESCRIPTION:'' @ [LF, LF] @
     ''This function resets the serial-device by deleting the cli_module and rebooting the device.''
     @ [LF, LF] @
     ''OPTIONS:'' @ [LF, LF] @
     ''-h: Print help about this command''"

definition restore :: "string list \<Rightarrow> world \<Rightarrow> world \<times> status" where
  "restore argv w =
     (if ''-h'' \<in> set argv then (helpmsg restore_help w, Returned)
      else (ser_close (serial_write restore_stmt None (ser_open w)), Returned))"







subsection \<open>Observations on a run\<close>

text \<open>The bytes handed to the transport, in order: the payloads of the \<open>Write\<close> events.\<close>

fun written :: "event list \<Rightarrow> byte list" where
  "written [] = []"
| "written (Write d # es) = d @ written es"
| "written (e # es) = written es"

text \<open>The world before anything has happened, the device being silent.\<close>

definition world0 :: world where
  "world0 = \<lparr>trace = [], rx = [], stdout = [], stderr = []\<rparr>"

text \<open>A string whose characters are all below 128, each encoded as one byte.\<close>

definition is_ascii :: "string \<Rightarrow> bool" where
  "is_ascii s = list_all (\<lambda>c. (of_char c :: nat) < 128) s"


section \<open>The device side: boot and cli\_module\<close>

subsection \<open>The functor decorator\<close>

text \<open>
  Python values that reach the device-side functions as arguments, and the arguments of a
  call: the positional ones and the keyword ones.
\<close>

datatype pyval = PyNone | PyStr string | PyInt int | PyBool bool

type_synonym pyargs = "pyval list \<times> (string \<times> pyval) list"

text \<open>How a device-side call ends.\<close>

datatype dev_end = Done | SysExit int | Raised pyerr

text \<open>
  A class, as far as \<open>functor\<close> uses it: \<open>cls(*args, **kwargs)\<close> builds an instance or
  raises, and \<open>instance(*args, **kwargs)\<close> runs \<open>__call__\<close>, which may print on the
  console (the \<open>string\<close> is the console output so far).
\<close>

record ('inst) pyclass =
  cls_init :: "pyargs \<Rightarrow> pyerr + 'inst"
  cls_call :: "'inst \<Rightarrow> pyargs \<Rightarrow> string \<Rightarrow> dev_end \<times> string"

text \<open>What a call of the decorated name gives back.\<close>

datatype 'inst functor_result = Instance 'inst | Called dev_end | CtorRaised pyerr

text \<open>
  \<open>get_instance(*args, **kwargs)\<close> of \<open>functor(cls)\<close>. The state is the nonlocal
  variable \<open>instance\<close> and the console output; an exception of the constructor leaves
  \<open>instance\<close> as it was.
\<close>

definition get_instance ::
  "'inst pyclass \<Rightarrow> pyargs \<Rightarrow> 'inst option \<times> string
     \<Rightarrow> 'inst functor_result \<times> 'inst option \<times> string" where
  "get_instance cls args st =
     (case fst st of
        None \<Rightarrow>
          (case cls_init cls args of
             Inl err \<Rightarrow> (CtorRaised err, None, snd st)
           | Inr inst \<Rightarrow> (Instance inst, Some inst, snd st))
      | Some inst \<Rightarrow>
          (Called (fst (cls_call cls inst args (snd st))), Some inst,
           snd (cls_call cls inst args (snd st))))"

subsection \<open>cli\_module\<close>

definition DEV_BEG_RES :: string where "DEV_BEG_RES = ''##### BEGIN RESULTS #####'' @ [LF]"
definition DEV_END_RES :: string where "DEV_END_RES = ''##### END RESULTS #####'' @ [LF]"

text \<open>\<open>serial_print(msg)\<close> on the console.\<close>

definition serial_print :: "string \<Rightarrow> string \<Rightarrow> string" where
  "serial_print msg out = out @ DEV_BEG_RES @ msg @ DEV_END_RES @ [LF]"

text \<open>\<open>usage(err)\<close> of the device side, with \<open>is_err\<close> left at \<open>True\<close>.\<close>

definition dev_usage :: "string \<Rightarrow> string \<Rightarrow> dev_end \<times> string" where
  "dev_usage err out = (SysExit EXIT_FAILURE, serial_print (''Usage: '' @ err @ [LF]) out)"

text \<open>
  The results of \<open>uos.uname()\<close> and \<open>uos.statvfs("/")\<close>, by the names of the indices
  that \<open>sysinfo\<close> uses.
\<close>

record uname =
  UN_SYSNAME :: string
  UN_NODENAME :: string
  UN_RELEASE :: string
  UN_VERSION :: string
  UN_MACHINE :: string

record statvfs =
  F_BSIZE :: int
  F_FRSIZE :: int
  F_BLOCKS :: int
  F_BFREE :: int
  F_BAVAIL :: int

record device =
  dev_uname :: uname
  dev_statvfs :: statvfs

definition QUERIES_MEM :: "string list" where
  "QUERIES_MEM = [''avail'', ''bsize'', ''free'', ''frsize'', ''size'']"

definition QUERIES_SYS :: "string list" where
  "QUERIES_SYS = [''fwver'', ''hostname'', ''hwrelease'', ''machine'', ''sysname'']"

text \<open>The instance of \<open>sysinfo\<close>: its attribute \<open>queries\<close>.\<close>

record sysinfo_obj =
  queries :: "string list"

text \<open>\<open>sysinfo.__init__(self)\<close>: it takes no argument besides \<open>self\<close>.\<close>

definition sysinfo_init :: "pyargs \<Rightarrow> pyerr + sysinfo_obj" where
  "sysinfo_init args =
     (if fst args \<noteq> [] then Inl (TypeError ''function takes 1 positional arguments'')
      else if snd args \<noteq> [] then Inl (TypeError ''unexpected keyword argument'')
      else Inr \<lparr>queries = [''all'', ''all_mem'', ''all_sys''] @ QUERIES_MEM @ QUERIES_SYS\<rparr>)"

text \<open>\<open>__meminfo(q)\<close> for a string \<open>q\<close>: the chain of \<open>if\<close> statements.\<close>

definition meminfo_one :: "device \<Rightarrow> string \<Rightarrow> string" where
  "meminfo_one dev q =
     (let stvfs = dev_statvfs dev in
      (if q = ''avail'' then ''available userspace: '' @ str_int (F_BAVAIL stvfs * F_BSIZE stvfs) @ [LF]
       else []) @
      (if q = ''bsize'' then ''blocksize: '' @ str_int (F_BSIZE stvfs) @ [LF] else []) @
      (if q = ''free'' then ''free space: '' @ str_int (F_BFREE stvfs * F_BSIZE stvfs) @ [LF]
       else []) @
      (if q = ''frsize'' then ''fragment size: '' @ str_int (F_FRSIZE stvfs) @ [LF] else []) @
      (if q = ''size'' then ''total memory space: '' @ str_int (F_BLOCKS stvfs * F_FRSIZE stvfs) @ [LF]
       else []))"

text \<open>\<open>__meminfo(q)\<close>; \<open>None\<close> asks for every entry.\<close>

definition meminfo :: "device \<Rightarrow> string option \<Rightarrow> string" where
  "meminfo dev q =
     (case q of
        None \<Rightarrow> meminfo_one dev ''avail'' @ meminfo_one dev ''bsize'' @ meminfo_one dev ''free'' @
                meminfo_one dev ''frsize'' @ meminfo_one dev ''size''
      | Some s \<Rightarrow> meminfo_one dev s)"

text \<open>\<open>__sysinfo(q)\<close> for a string \<open>q\<close>.\<close>

definition sysinfo_one :: "device \<Rightarrow> string \<Rightarrow> string" where
  "sysinfo_one dev q =
     (let un = dev_uname dev in
      (if q = ''fwver'' then ''firmware version: '' @ UN_VERSION un @ [LF] else []) @
      (if q = ''hostname'' then ''hostname: '' @ UN_NODENAME un @ [LF] else []) @
      (if q = ''hwrelease'' then ''hardware release: '' @ UN_RELEASE un @ [LF] else []) @
      (if q = ''machine'' then ''machine: '' @ UN_MACHINE un @ [LF] else []) @
      (if q = ''sysname'' then ''system name: '' @ UN_SYSNAME un @ [LF] else []))"

definition sysinfo_all :: "device \<Rightarrow> string option \<Rightarrow> string" where
  "sysinfo_all dev q =
     (case q of
        None \<Rightarrow> sysinfo_one dev ''fwver'' @ sysinfo_one dev ''hostname'' @
                sysinfo_one dev ''hwrelease'' @ sysinfo_one dev ''machine'' @
                sysinfo_one dev ''sysname''
      | Some s \<Rightarrow> sysinfo_one dev s)"

text \<open>
  \<open>__query(q)\<close>: \<open>Inl\<close> when \<open>usage\<close> ends the process, with the console output it
  made; \<open>Inr\<close> the result string.
\<close>

definition query_str :: "device \<Rightarrow> sysinfo_obj \<Rightarrow> string \<Rightarrow> string \<Rightarrow> (dev_end \<times> string) + string" where
  "query_str dev self q out =
     (if q \<notin> set (queries self) then Inl (dev_usage ''Unknown query'' out)
      else if q = ''all'' then Inr (sysinfo_all dev None @ meminfo dev None)
      else if q = ''all_mem'' then Inr (meminfo dev None)
      else if q = ''all_sys'' then Inr (sysinfo_all dev None)
      else Inr ((if q \<in> set QUERIES_MEM then meminfo dev (Some q) else []) @
                (if q \<in> set QUERIES_SYS then sysinfo_all dev (Some q) else [])))"

definition query :: "device \<Rightarrow> sysinfo_obj \<Rightarrow> pyval \<Rightarrow> string \<Rightarrow> (dev_end \<times> string) + string" where
  "query dev self q out =
     (case q of
        PyNone \<Rightarrow> query_str dev self ''all'' out
      | PyStr s \<Rightarrow> query_str dev self s out
      | _ \<Rightarrow> Inl (dev_usage ''Unknown query'' out))"

text \<open>
  \<open>sysinfo.__call__(self, query=None)\<close>: the argument may come by position or by
  keyword; anything else is a TypeError.
\<close>

definition sysinfo_call :: "device \<Rightarrow> sysinfo_obj \<Rightarrow> pyargs \<Rightarrow> string \<Rightarrow> dev_end \<times> string" where
  "sysinfo_call dev self args out =
     (let run = (\<lambda>q. case query dev self q out of
                        Inl ended \<Rightarrow> ended
                      | Inr res \<Rightarrow> (Done, serial_print res out))
      in case args of
           ([], []) \<Rightarrow> run PyNone
         | ([q], []) \<Rightarrow> run q
         | ([], [(k, q)]) \<Rightarrow>
             if k = ''query'' then run q
             else (Raised (TypeError ''unexpected keyword argument''), out)
         | _ \<Rightarrow> (Raised (TypeError ''function takes 2 positional arguments''), out))"

text \<open>The class \<open>sysinfo\<close> on a device, and the name \<open>sysinfo\<close> after \<open>@functor\<close>.\<close>

definition sysinfo_cls :: "device \<Rightarrow> sysinfo_obj pyclass" where
  "sysinfo_cls dev = \<lparr>cls_init = sysinfo_init, cls_call = sysinfo_call dev\<rparr>"

definition dev_sysinfo ::
  "device \<Rightarrow> pyargs \<Rightarrow> sysinfo_obj option \<times> string
     \<Rightarrow> sysinfo_obj functor_result \<times> sysinfo_obj option \<times> string" where
  "dev_sysinfo dev args st = get_instance (sysinfo_cls dev) args st"

subsection \<open>human\_readable\<close>

text \<open>
  The number held by \<open>n\<close>: an \<open>int\<close>, or a \<open>float\<close> once a true division has run.
  A float is modelled by the rational number it stands for, so that \<open>/\<close> is exact.
\<close>

datatype pynum = PyI int | PyF rat

fun num_val :: "pynum \<Rightarrow> rat" where
  "num_val (PyI k) = of_int k"
| "num_val (PyF r) = r"

text \<open>\<open>n % 1024 == 0\<close>, \<open>n // 1024\<close> and \<open>n / 1024\<close>.\<close>

fun mod_1024_is_0 :: "pynum \<Rightarrow> bool" where
  "mod_1024_is_0 (PyI k) = (k mod 1024 = 0)"
| "mod_1024_is_0 (PyF r) = (r - 1024 * of_int \<lfloor>r / 1024\<rfloor> = 0)"

fun floordiv_1024 :: "pynum \<Rightarrow> pynum" where
  "floordiv_1024 (PyI k) = PyI (k div 1024)"
| "floordiv_1024 (PyF r) = PyF (of_int \<lfloor>r / 1024\<rfloor>)"

fun truediv_1024 :: "pynum \<Rightarrow> pynum" where
  "truediv_1024 (PyI k) = PyF (of_int k / 1024)"
| "truediv_1024 (PyF r) = PyF (r / 1024)"

text \<open>One round of the loop divides the value by 1024, or rounds the quotient down.\<close>

lemma num_val_step_le:
  "num_val (if mod_1024_is_0 n then floordiv_1024 n else truediv_1024 n) \<le> num_val n / 1024"
proof (cases n)
  case (PyI k)
  have "\<lfloor>(of_int k :: rat) / of_int 1024\<rfloor> = k div 1024"
    by (rule floor_divide_of_int_eq)
  then have "(of_int (k div 1024) :: rat) = of_int \<lfloor>(of_int k :: rat) / 1024\<rfloor>"
    by simp
  also have "\<dots> \<le> of_int k / 1024"
    by (rule of_int_floor_le)
  finally show ?thesis
    using PyI by simp
next
  case (PyF r)
  have "of_int \<lfloor>r / 1024\<rfloor> \<le> r / 1024"
    by (rule of_int_floor_le)
  then show ?thesis
    using PyF by simp
qed

text \<open>The loop \<open>while n >= 1024\<close>, returning \<open>n\<close> and \<open>i\<close>.\<close>

function hr_loop :: "pynum \<Rightarrow> nat \<Rightarrow> pynum \<times> nat" where
  "hr_loop n i =
     (if num_val n \<ge> 1024
      then hr_loop (if mod_1024_is_0 n then floordiv_1024 n else truediv_1024 n) (i + 1)
      else (n, i))"
  by pat_completeness auto

termination
proof (relation "measure (\<lambda>(n, i). nat \<lfloor>num_val n\<rfloor>)")
  show "wf (measure (\<lambda>(n, i). nat \<lfloor>num_val n\<rfloor>))" by simp
next
  fix n :: pynum and i :: nat
  assume big: "1024 \<le> num_val n"
  let ?n' = "if mod_1024_is_0 n then floordiv_1024 n else truediv_1024 n"
  have "num_val ?n' \<le> num_val n / 1024" by (rule num_val_step_le)
  also have "\<dots> \<le> num_val n - 1" using big by simp
  finally have "\<lfloor>num_val ?n'\<rfloor> \<le> \<lfloor>num_val n - 1\<rfloor>" by (rule floor_mono)
  then have "\<lfloor>num_val ?n'\<rfloor> < \<lfloor>num_val n\<rfloor>" by simp
  moreover have "0 < \<lfloor>num_val n\<rfloor>" using big by simp
  ultimately show "((?n', i + 1), (n, i)) \<in> measure (\<lambda>(n, i). nat \<lfloor>num_val n\<rfloor>)"
    by simp
qed

declare hr_loop.simps [simp del]

definition units :: "string list" where
  "units = [''K'', ''M'', ''G'', ''T'']"

text \<open>
  The text that \<open>human_readable\<close> returns, by the format that produced it:
  \<open>"{:.1f}{}".format(n, unit)\<close> or, when \<open>n == int(n)\<close>, \<open>"{}{}".format(n, unit)\<close>.
\<close>

datatype hr_text = Fixed1 pynum string | Plain pynum string

fun is_integral :: "pynum \<Rightarrow> bool" where
  "is_integral (PyI k) = True"
| "is_integral (PyF r) = (r = of_int \<lfloor>r\<rfloor>)"

text \<open>
  \<open>human_readable(n)\<close> for an integer \<open>n\<close>. A negative \<open>n\<close> goes to \<open>usage\<close>, which
  ends the process; \<open>units[i - 1]\<close> raises IndexError past the end of the list.
\<close>

definition human_readable :: "int \<Rightarrow> string \<Rightarrow> (dev_end \<times> string) + hr_text" where
  "human_readable n out =
     (if n < 0 then Inl (dev_usage ''Number of bytes must be non-negative integer'' out)
      else
        (let n' = fst (hr_loop (PyI n) 0);
             i = snd (hr_loop (PyI n) 0)
         in if i > 0 \<and> \<not> i - 1 < length units
            then Inl (Raised (IndexError ''list index out of range''), out)
            else
              (let unit = (if i > 0 then units ! (i - 1) else [])
               in if is_integral n' then Inr (Plain n' unit) else Inr (Fixed1 n' unit))))"

section \<open>Evaluation of the string operations\<close>

lemma split_from_Nil [simp]: "split_from sep cur [] = [cur]"
  by (simp add: split_from.simps)

lemma split_from_Cons:
  "split_from sep cur (c # cs) =
     (if sep \<noteq> [] \<and> prefix sep (c # cs) then cur # split_from sep [] (drop (length sep) (c # cs))
      else split_from sep (cur @ [c]) cs)"
  by (subst split_from.simps) simp

lemma replace_from_Nil [simp]: "replace_from old new [] = []"
  by (simp add: replace_from.simps)

lemma replace_from_Cons:
  "replace_from old new (c # cs) =
     (if old \<noteq> [] \<and> prefix old (c # cs) then new @ replace_from old new (drop (length old) (c # cs))
      else c # replace_from old new cs)"
  by (subst replace_from.simps) simp

lemma replace_from_single:
  "replace_from [k] new s = concat (map (\<lambda>c. if c = k then new else [c]) s)"
  by (induction s) (auto simp: replace_from_Cons)

lemma py_replace_single:
  "py_replace [k] new s = concat (map (\<lambda>c. if c = k then new else [c]) s)"
  by (simp add: py_replace_def replace_from_single)

section \<open>Escaping\<close>

text \<open>
  C5 (as amended). The line made of a backslash followed by a newline is escaped to four
  characters: the escaped backslash (two backslashes) followed by the escaped newline
  (a backslash and the letter n). The backslash that escapes the newline is not doubled
  again, because the backslash substitution runs first.
\<close>

theorem substitute_backslash_newline:
  "substitute [BSLASH, LF] = [BSLASH, BSLASH, BSLASH, CHR ''n'']"
  by (simp add: substitute_def SUBSTITUTES_def py_replace_single
      BSLASH_def LF_def CR_def TAB_def SQUOTE_def)

text \<open>
  C5 (as stated) fails: the result is not the three characters backslash, backslash, n.
\<close>

theorem substitute_backslash_newline_counterexample:
  "substitute [BSLASH, LF] \<noteq> [BSLASH, BSLASH, CHR ''n'']"
  by (simp add: substitute_def SUBSTITUTES_def py_replace_single
      BSLASH_def LF_def CR_def TAB_def SQUOTE_def)

section \<open>Splitting, joining and replacing\<close>

lemma split_from_nonempty: "split_from sep cur s \<noteq> []"
  by (induction sep cur s rule: split_from.induct) (subst split_from.simps, simp)

lemma py_join_Cons: "xs \<noteq> [] \<Longrightarrow> py_join new (x # xs) = x @ new @ py_join new xs"
  by (cases xs) simp_all

lemma join_split: "py_join new (split_from sep cur s) = cur @ replace_from sep new s"
proof (induction sep cur s rule: split_from.induct)
  case (1 sep cur s)
  show ?case
  proof (cases s)
    case Nil
    then show ?thesis by simp
  next
    case (Cons c cs)
    show ?thesis
    proof (cases "sep \<noteq> [] \<and> prefix sep s")
      case True
      then have "py_join new (split_from sep [] (drop (length sep) s)) =
          replace_from sep new (drop (length sep) s)"
        using "1.IH"(1) Cons by simp
      then show ?thesis
        using True Cons
        by (simp add: split_from_Cons replace_from_Cons py_join_Cons split_from_nonempty)
    next
      case False
      then have "py_join new (split_from sep (cur @ [hd s]) (tl s)) =
          (cur @ [hd s]) @ replace_from sep new (tl s)"
        using "1.IH"(2) Cons by simp
      then show ?thesis
        using False Cons by (auto simp: split_from_Cons replace_from_Cons)
    qed
  qed
qed

lemma split_no_occ: "\<not> sublist sep s \<Longrightarrow> split_from sep cur s = [cur @ s]"
proof (induction s arbitrary: cur)
  case Nil
  then show ?case by simp
next
  case (Cons c cs)
  then have "\<not> prefix sep (c # cs)" "\<not> sublist sep cs"
    by (auto simp: sublist_Cons_right)
  then show ?case using Cons.IH [of "cur @ [c]"] by (simp add: split_from_Cons)
qed

lemma split_occ_length: "sep \<noteq> [] \<Longrightarrow> sublist sep s \<Longrightarrow> 2 \<le> length (split_from sep cur s)"
proof (induction s arbitrary: cur)
  case Nil
  then show ?case by simp
next
  case (Cons c cs)
  show ?case
  proof (cases "prefix sep (c # cs)")
    case True
    have "1 \<le> length (split_from sep [] (drop (length sep) (c # cs)))"
      using split_from_nonempty [of sep "[]" "drop (length sep) (c # cs)"]
      by (cases "split_from sep [] (drop (length sep) (c # cs))") simp_all
    then show ?thesis using True Cons.prems(1) by (simp add: split_from_Cons)
  next
    case False
    then have "sublist sep cs" using Cons.prems(2) by (simp add: sublist_Cons_right)
    then show ?thesis using False Cons.IH Cons.prems(1) by (simp add: split_from_Cons)
  qed
qed

lemma split_length_one:
  "sep \<noteq> [] \<Longrightarrow> (length (split_from sep cur s) = 1) = (\<not> sublist sep s)"
  using split_occ_length [of sep s cur] split_no_occ [of sep s cur] by fastforce

lemma prefix_fits:
  "prefix sep (pre @ sep @ rest) \<Longrightarrow> pre \<noteq> [] \<Longrightarrow> prefix sep (pre @ butlast sep)"
proof -
  assume p: "prefix sep (pre @ sep @ rest)" and ne: "pre \<noteq> []"
  show ?thesis
  proof (cases "sep = []")
    case True
    then show ?thesis by simp
  next
    case False
    then have "pre @ sep @ rest = (pre @ butlast sep) @ (last sep # rest)"
      by simp
    moreover have "length sep \<le> length (pre @ butlast sep)"
      using ne False by (cases pre) simp_all
    ultimately show ?thesis
      using p by (metis prefix_length_prefix prefix_append append_prefixD prefixI)
  qed
qed

lemma split_first:
  "sep \<noteq> [] \<Longrightarrow> \<not> sublist sep (pre @ butlast sep) \<Longrightarrow>
   split_from sep cur (pre @ sep @ rest) = (cur @ pre) # split_from sep [] rest"
proof (induction pre arbitrary: cur)
  case Nil
  then show ?case
    by (subst split_from.simps) simp
next
  case (Cons p pre)
  have "\<not> prefix sep ((p # pre) @ butlast sep)"
    using Cons.prems(2) by (auto dest: prefix_imp_sublist)
  then have np: "\<not> prefix sep ((p # pre) @ sep @ rest)"
    using prefix_fits [of sep "p # pre" rest] by blast
  have "\<not> sublist sep (pre @ butlast sep)"
    using Cons.prems(2) by (simp add: sublist_Cons_right)
  then have "split_from sep (cur @ [p]) (pre @ sep @ rest) = ((cur @ [p]) @ pre) # split_from sep [] rest"
    using Cons.IH Cons.prems(1) by blast
  then show ?case using np by (simp add: split_from_Cons)
qed

lemma count_occ_short: "length s < length sep \<Longrightarrow> count_occ sep s = 0"
proof (induction s)
  case Nil
  then show ?case by simp
next
  case (Cons c cs)
  then have "\<not> prefix sep (c # cs)"
    by (auto dest: prefix_length_le)
  then show ?case using Cons by simp
qed

lemma count_occ_zero: "sep \<noteq> [] \<Longrightarrow> (count_occ sep s = 0) = (\<not> sublist sep s)"
  by (induction s) (auto simp: sublist_Cons_right)

lemma prefix_take_window: "prefix sep s = prefix sep (take (length sep) s)"
  by (metis prefix_def append_eq_conv_conj take_is_prefix prefix_order.dual_order.trans
      append_take_drop_id take_all_iff prefix_length_le nle_le take_take min.absorb1 prefixI)

lemma count_occ_append:
  "count_occ sep (a @ b) = count_occ sep (a @ take (length sep - 1) b) + count_occ sep b"
proof (induction a)
  case Nil
  have "count_occ sep (take (length sep - 1) b) = 0"
  proof (cases "sep = []")
    case True
    then show ?thesis by simp
  next
    case False
    then have "length (take (length sep - 1) b) < length sep"
      by (cases sep) (auto simp: min_def)
    then show ?thesis by (rule count_occ_short)
  qed
  then show ?case by simp
next
  case (Cons c a)
  have "take (length sep) ((c # a) @ b) = take (length sep) ((c # a) @ take (length sep - 1) b)"
    by (cases "length sep") simp_all
  then have "prefix sep ((c # a) @ b) = prefix sep ((c # a) @ take (length sep - 1) b)"
    using prefix_take_window [of sep "(c # a) @ b"]
      prefix_take_window [of sep "(c # a) @ take (length sep - 1) b"] by simp
  then show ?case using Cons by simp
qed

lemma count_occ_marker:
  "sep \<noteq> [] \<Longrightarrow>
   count_occ sep (pre @ sep @ rest) =
     count_occ sep (pre @ butlast sep) + 1 + count_occ sep (tl sep @ rest)"
proof -
  assume ne: "sep \<noteq> []"
  then have "take (length sep - 1) (sep @ rest) = butlast sep"
    by (simp add: butlast_conv_take)
  then have "count_occ sep (pre @ sep @ rest) =
      count_occ sep (pre @ butlast sep) + count_occ sep (sep @ rest)"
    using count_occ_append [of sep pre "sep @ rest"] by simp
  moreover have "count_occ sep (sep @ rest) = 1 + count_occ sep (tl sep @ rest)"
    using ne by (cases sep) simp_all
  ultimately show ?thesis by simp
qed

subsection \<open>Replacing CRLF by LF\<close>

lemma crlf_to_lf_CRLF:
  "replace_from CRLF [LF] (CR # LF # s) = LF # replace_from CRLF [LF] s"
  by (simp add: replace_from_Cons CRLF_def)

lemma crlf_to_lf_other:
  "c \<noteq> CR \<or> s = [] \<or> hd s \<noteq> LF \<Longrightarrow>
   replace_from CRLF [LF] (c # s) = c # replace_from CRLF [LF] s"
  by (cases s) (auto simp: replace_from_Cons CRLF_def)

lemma crlf_to_lf_cases:
  obtains (crlf) t where "s = CR # LF # t"
  | (nil) "s = []"
  | (other) c t where "s = c # t" "c \<noteq> CR \<or> t = [] \<or> hd t \<noteq> LF"
proof (cases s)
  case Nil
  then show ?thesis by (rule nil)
next
  case (Cons c t)
  show ?thesis
  proof (cases "c \<noteq> CR \<or> t = [] \<or> hd t \<noteq> LF")
    case True
    with Cons show ?thesis by (rule other)
  next
    case False
    then have "s = CR # LF # tl t" using Cons by (cases t) auto
    then show ?thesis by (rule crlf)
  qed
qed

lemma crlf_to_lf_no_CR:
  "CR \<notin> set m \<Longrightarrow> replace_from CRLF [LF] (m @ b) = m @ replace_from CRLF [LF] b"
proof (induction m)
  case Nil
  show ?case by simp
next
  case (Cons a m)
  then have "a \<noteq> CR" by auto
  then have "replace_from CRLF [LF] (a # m @ b) = a # replace_from CRLF [LF] (m @ b)"
    by (intro crlf_to_lf_other) simp
  then show ?case using Cons by simp
qed

lemma crlf_to_lf_append:
  "b = [] \<or> hd b \<noteq> LF \<Longrightarrow>
   replace_from CRLF [LF] (a @ b) = replace_from CRLF [LF] a @ replace_from CRLF [LF] b"
proof (induction a rule: induct_list012)
  case 1
  then show ?case by simp
next
  case (2 x)
  then show ?case by (simp add: crlf_to_lf_other)
next
  case (3 x y zs)
  show ?case
  proof (cases "x = CR \<and> y = LF")
    case True
    then show ?thesis using 3 by (simp add: crlf_to_lf_CRLF)
  next
    case False
    then have "replace_from CRLF [LF] (x # (y # zs) @ b) = x # replace_from CRLF [LF] ((y # zs) @ b)"
      "replace_from CRLF [LF] (x # y # zs) = x # replace_from CRLF [LF] (y # zs)"
      by (auto intro!: crlf_to_lf_other)
    then show ?thesis using 3 by simp
  qed
qed

lemma crlf_to_lf_marker:
  "m \<noteq> [] \<Longrightarrow> CR \<notin> set m \<Longrightarrow> LF \<notin> set m \<Longrightarrow>
   replace_from CRLF [LF] (a @ m @ b) = replace_from CRLF [LF] a @ m @ replace_from CRLF [LF] b"
proof -
  assume m: "m \<noteq> []" "CR \<notin> set m" "LF \<notin> set m"
  then have "hd (m @ b) \<noteq> LF" by (cases m) auto
  then have "replace_from CRLF [LF] (a @ m @ b) =
      replace_from CRLF [LF] a @ replace_from CRLF [LF] (m @ b)"
    by (intro crlf_to_lf_append) simp
  then show ?thesis using m(2) by (simp add: crlf_to_lf_no_CR)
qed

lemma prefix_crlf_to_lf:
  "LF \<notin> set m \<Longrightarrow> prefix m (replace_from CRLF [LF] s) \<Longrightarrow> prefix m s"
proof (induction m arbitrary: s)
  case Nil
  then show ?case by simp
next
  case (Cons a m)
  show ?case
  proof (cases s rule: crlf_to_lf_cases)
    case (crlf t)
    then show ?thesis using Cons.prems by (simp add: crlf_to_lf_CRLF)
  next
    case nil
    then show ?thesis using Cons.prems by simp
  next
    case (other c t)
    then have "replace_from CRLF [LF] s = c # replace_from CRLF [LF] t"
      by (simp add: crlf_to_lf_other)
    then have "a = c" "prefix m (replace_from CRLF [LF] t)"
      using Cons.prems(2) by simp_all
    then show ?thesis using Cons.IH [of t] Cons.prems(1) other(1) by simp
  qed
qed

lemma sublist_crlf_to_lf:
  "LF \<notin> set m \<Longrightarrow> sublist m (replace_from CRLF [LF] s) \<Longrightarrow> sublist m s"
proof (induction s rule: induct_list012)
  case 1
  then show ?case by simp
next
  case (2 x)
  then show ?case by (simp add: crlf_to_lf_other)
next
  case (3 x y zs)
  show ?case
  proof (cases "x = CR \<and> y = LF")
    case True
    then have "sublist m (LF # replace_from CRLF [LF] zs)"
      using "3.prems"(2) by (simp add: crlf_to_lf_CRLF)
    then have "m = [] \<or> sublist m (replace_from CRLF [LF] zs)"
      using "3.prems"(1) by (cases m) (auto simp: sublist_Cons_right)
    then have "sublist m zs" using "3.IH"(1) "3.prems"(1) by auto
    then show ?thesis by (simp add: sublist_Cons_right)
  next
    case False
    then have eq: "replace_from CRLF [LF] (x # y # zs) = x # replace_from CRLF [LF] (y # zs)"
      by (auto intro!: crlf_to_lf_other)
    then have "prefix m (replace_from CRLF [LF] (x # y # zs)) \<or>
        sublist m (replace_from CRLF [LF] (y # zs))"
      using "3.prems"(2) by (simp add: sublist_Cons_right)
    then show ?thesis
    proof
      assume "prefix m (replace_from CRLF [LF] (x # y # zs))"
      then have "prefix m (x # y # zs)" using "3.prems"(1) by (rule prefix_crlf_to_lf [rotated])
      then show ?thesis by (rule prefix_imp_sublist)
    next
      assume "sublist m (replace_from CRLF [LF] (y # zs))"
      then have "sublist m (y # zs)" using "3.IH"(2) "3.prems"(1) by blast
      then show ?thesis by (simp add: sublist_Cons_right)
    qed
  qed
qed

lemma sublist_crlf_to_lf_iff:
  "m \<noteq> [] \<Longrightarrow> CR \<notin> set m \<Longrightarrow> LF \<notin> set m \<Longrightarrow>
   sublist m (replace_from CRLF [LF] s) = sublist m s"
proof
  assume "LF \<notin> set m" "sublist m (replace_from CRLF [LF] s)"
  then show "sublist m s" by (rule sublist_crlf_to_lf)
next
  assume m: "m \<noteq> []" "CR \<notin> set m" "LF \<notin> set m" and "sublist m s"
  then obtain a b where "s = a @ m @ b" by (auto simp: sublist_def)
  then have "replace_from CRLF [LF] s = replace_from CRLF [LF] a @ m @ replace_from CRLF [LF] b"
    using m by (simp add: crlf_to_lf_marker)
  then show "sublist m (replace_from CRLF [LF] s)" by simp
qed

subsection \<open>The last separator\<close>

lemma count_occ_mono: "count_occ sep a \<le> count_occ sep (a @ b)"
proof (induction a)
  case Nil
  show ?case by simp
next
  case (Cons c a)
  have "prefix sep (c # a) \<Longrightarrow> prefix sep (c # a @ b)"
    by (metis append_Cons prefix_prefix)
  then show ?case using Cons by auto
qed

lemma count_occ_eq_Cons:
  assumes "count_occ sep ((c # a) @ b) = count_occ sep (c # a)"
  shows "prefix sep ((c # a) @ b) = prefix sep (c # a)" and "count_occ sep (a @ b) = count_occ sep a"
proof -
  have imp: "prefix sep (c # a) \<Longrightarrow> prefix sep ((c # a) @ b)"
    by (rule prefix_prefix)
  have le: "count_occ sep a \<le> count_occ sep (a @ b)"
    by (rule count_occ_mono)
  show "prefix sep ((c # a) @ b) = prefix sep (c # a)"
    using assms imp le by (auto split: if_splits)
  show "count_occ sep (a @ b) = count_occ sep a"
    using assms imp le by (auto split: if_splits)
qed

lemma count_occ_eq_drop:
  "count_occ sep (a @ b) = count_occ sep a \<Longrightarrow>
   count_occ sep (drop k a @ b) = count_occ sep (drop k a)"
proof (induction a arbitrary: k)
  case Nil
  then show ?case by simp
next
  case (Cons c a)
  have "count_occ sep (a @ b) = count_occ sep a"
    by (rule count_occ_eq_Cons(2) [OF Cons.prems])
  then show ?case using Cons by (cases k) simp_all
qed

lemma split_last:
  "sep \<noteq> [] \<Longrightarrow> count_occ sep (body @ butlast sep) = count_occ sep body \<Longrightarrow>
   \<not> sublist sep post \<Longrightarrow>
   split_from sep cur (body @ sep @ post) = split_from sep cur body @ [post]"
proof (induction "length body" arbitrary: body cur rule: less_induct)
  case less
  show ?case
  proof (cases body)
    case Nil
    have "split_from sep cur (sep @ post) = cur # split_from sep [] post"
      using split_first [of sep "[]" cur post] less.prems(1)
      by (simp add: count_occ_zero [symmetric] count_occ_short)
    then show ?thesis using Nil less.prems(3) by (simp add: split_no_occ)
  next
    case (Cons c cs)
    note eq = count_occ_eq_Cons [OF less.prems(2) [unfolded Cons]]
    show ?thesis
    proof (cases "prefix sep (body @ sep @ post)")
      case True
      then have "prefix sep (body @ butlast sep)"
        using prefix_fits [of sep body post] Cons by simp
      then have pb: "prefix sep body" using eq(1) Cons by simp
      then have len: "length sep \<le> length body" by (rule prefix_length_le)
      let ?b = "drop (length sep) body"
      have shorter: "length ?b < length body"
        using less.prems(1) Cons by simp
      have "count_occ sep (?b @ butlast sep) = count_occ sep ?b"
        using less.prems(2) by (rule count_occ_eq_drop)
      then have "split_from sep [] (?b @ sep @ post) = split_from sep [] ?b @ [post]"
        using less.hyps [OF shorter less.prems(1) _ less.prems(3)] by blast
      moreover have "drop (length sep) (body @ sep @ post) = ?b @ sep @ post"
        using len by simp
      moreover have "split_from sep cur (body @ sep @ post) =
          cur # split_from sep [] (drop (length sep) (body @ sep @ post))"
        using True less.prems(1) by (subst split_from.simps) simp
      moreover have "split_from sep cur body = cur # split_from sep [] ?b"
        using pb less.prems(1) Cons by (simp add: split_from_Cons)
      ultimately show ?thesis by simp
    next
      case False
      then have npb: "\<not> prefix sep body"
        using prefix_prefix by blast
      have "split_from sep (cur @ [c]) (cs @ sep @ post) = split_from sep (cur @ [c]) cs @ [post]"
        using less.hyps [of cs "cur @ [c]"] less.prems(1,3) eq(2) Cons by simp
      then show ?thesis using False npb Cons by (simp add: split_from_Cons)
    qed
  qed
qed

section \<open>The result extractor\<close>

lemma BEG_RES_marker: "BEG_RES \<noteq> []" "CR \<notin> set BEG_RES" "LF \<notin> set BEG_RES"
  by (simp_all add: BEG_RES_def CR_def LF_def)

lemma END_RES_marker: "END_RES \<noteq> []" "CR \<notin> set END_RES" "LF \<notin> set END_RES"
  by (simp_all add: END_RES_def CR_def LF_def)

lemma replace_no_occ: "\<not> sublist sep s \<Longrightarrow> replace_from sep new s = s"
  using join_split [of new sep "[]" s] by (simp add: split_no_occ)

lemma extract_results_eq:
  "extract_results raw =
     (if \<not> sublist BEG_RES (replace_from CRLF [LF] raw)
      then Inl (error (ValueError ''No results found''))
      else if \<not> sublist END_RES
                (py_join [] (drop 1 (split_from BEG_RES [] (replace_from CRLF [LF] raw))))
      then Inl (error (ValueError ''Result incomplete''))
      else Inr (py_join [] (butlast (split_from END_RES []
                (py_join [] (drop 1 (split_from BEG_RES [] (replace_from CRLF [LF] raw))))))))"
proof -
  have "CRLF \<noteq> []" by (simp add: CRLF_def)
  then show ?thesis
    using BEG_RES_marker(1) END_RES_marker(1)
    by (simp add: extract_results_def py_split_def join_split split_length_one [unfolded One_nat_def])
qed

lemma crlf_to_lf_tail:
  "CR \<notin> set t \<Longrightarrow> t = [] \<or> hd t \<noteq> LF \<Longrightarrow>
   replace_from CRLF [LF] (a @ t) = replace_from CRLF [LF] a @ t"
  using crlf_to_lf_append [of t a] crlf_to_lf_no_CR [of t "[]"] by simp

lemma marker_butlast:
  assumes "CR \<notin> set m" and "LF \<notin> set m"
  shows "CR \<notin> set (butlast m)" and "butlast m = [] \<or> hd (butlast m) \<noteq> LF"
proof -
  have sub: "set (butlast m) \<subseteq> set m"
    by (auto dest: in_set_butlastD)
  then show "CR \<notin> set (butlast m)"
    using assms(1) by auto
  have "butlast m \<noteq> [] \<Longrightarrow> hd (butlast m) \<in> set m"
    using sub hd_in_set by blast
  then show "butlast m = [] \<or> hd (butlast m) \<noteq> LF"
    using assms(2) by auto
qed

lemma no_marker_before:
  assumes m: "m \<noteq> []" "CR \<notin> set m" "LF \<notin> set m"
    and "count_occ m (pre @ butlast m) = 0"
  shows "\<not> sublist m (replace_from CRLF [LF] pre @ butlast m)"
proof -
  have "\<not> sublist m (pre @ butlast m)"
    using assms(4) m(1) by (simp add: count_occ_zero)
  then have "\<not> sublist m (replace_from CRLF [LF] (pre @ butlast m))"
    using m by (simp add: sublist_crlf_to_lf_iff)
  moreover have "replace_from CRLF [LF] (pre @ butlast m) = replace_from CRLF [LF] pre @ butlast m"
    using marker_butlast [OF m(2,3)] by (intro crlf_to_lf_tail) simp_all
  ultimately show ?thesis by simp
qed

lemma first_marker:
  assumes "raw = pre @ BEG_RES @ rest" and "count_occ BEG_RES (pre @ butlast BEG_RES) = 0"
  shows "sublist BEG_RES (replace_from CRLF [LF] raw)"
    and "py_join [] (drop 1 (split_from BEG_RES [] (replace_from CRLF [LF] raw))) =
      replace_from BEG_RES [] (replace_from CRLF [LF] rest)"
proof -
  have norm: "replace_from CRLF [LF] raw =
      replace_from CRLF [LF] pre @ BEG_RES @ replace_from CRLF [LF] rest"
    using assms(1) BEG_RES_marker by (simp add: crlf_to_lf_marker)
  then show "sublist BEG_RES (replace_from CRLF [LF] raw)" by simp
  have "\<not> sublist BEG_RES (replace_from CRLF [LF] pre @ butlast BEG_RES)"
    using BEG_RES_marker assms(2) by (rule no_marker_before)
  then have "split_from BEG_RES [] (replace_from CRLF [LF] raw) =
      replace_from CRLF [LF] pre # split_from BEG_RES [] (replace_from CRLF [LF] rest)"
    using split_first [of BEG_RES "replace_from CRLF [LF] pre" "[]"] BEG_RES_marker(1) norm
    by simp
  then show "py_join [] (drop 1 (split_from BEG_RES [] (replace_from CRLF [LF] raw))) =
      replace_from BEG_RES [] (replace_from CRLF [LF] rest)"
    by (simp add: join_split)
qed

lemma extract_results_general:
  assumes "raw = pre @ BEG_RES @ rest"
    and "count_occ BEG_RES (pre @ butlast BEG_RES) = 0"
    and "replace_from BEG_RES [] (replace_from CRLF [LF] rest) = body @ END_RES @ post"
    and "count_occ END_RES (body @ butlast END_RES) = count_occ END_RES body"
    and "count_occ END_RES post = 0"
  shows "extract_results raw = Inr (replace_from END_RES [] body)"
proof -
  note fm = first_marker [OF assms(1,2)]
  have y: "py_join [] (drop 1 (split_from BEG_RES [] (replace_from CRLF [LF] raw))) =
      body @ END_RES @ post"
    using fm(2) assms(3) by simp
  have "\<not> sublist END_RES post"
    using assms(5) END_RES_marker(1) by (simp add: count_occ_zero)
  then have "split_from END_RES [] (body @ END_RES @ post) = split_from END_RES [] body @ [post]"
    using END_RES_marker(1) assms(4) by (intro split_last)
  then have "py_join [] (butlast (split_from END_RES [] (body @ END_RES @ post))) =
      replace_from END_RES [] body"
    by (simp add: join_split)
  then show ?thesis
    using fm(1) y by (simp add: extract_results_eq)
qed

lemma error_messages_differ:
  "error (ValueError ''No results found'') \<noteq> error (ValueError ''Result incomplete'')"
  by (simp add: error_def)

lemma only_marker:
  assumes "m \<noteq> []" and "raw = pre @ m @ rest" and "count_occ m raw = 1"
  shows "count_occ m (pre @ butlast m) = 0" and "\<not> sublist m rest"
proof -
  have sum: "count_occ m (pre @ butlast m) + 1 + count_occ m (tl m @ rest) = 1"
    using count_occ_marker [OF assms(1), of pre rest] assms(2,3) by simp
  then show "count_occ m (pre @ butlast m) = 0" by simp
  from sum have "count_occ m (tl m @ rest) = 0" by simp
  then have "\<not> sublist m (tl m @ rest)"
    using assms(1) by (simp add: count_occ_zero)
  then show "\<not> sublist m rest"
    by (metis sublist_append_leftI sublist_order.dual_order.trans)
qed


text \<open>
  C1 (as amended). When the raw output holds the BEGIN marker once and, after it, the END
  marker once, \<open>extract_results\<close> returns the text between the two markers with every
  CRLF in it replaced by LF, whatever stands before the BEGIN marker and after the END
  marker. The line breaks next to the markers belong to that text.
\<close>

theorem extract_results_one_pair:
  assumes "raw = pre @ BEG_RES @ mid @ END_RES @ post"
    and "count_occ BEG_RES raw = 1"
    and "count_occ END_RES raw = 1"
  shows "extract_results raw = Inr (replace_from CRLF [LF] mid)"
proof -
  note ob = only_marker [OF BEG_RES_marker(1) assms(1,2)]
  have raw': "raw = (pre @ BEG_RES @ mid) @ END_RES @ post"
    using assms(1) by simp
  note oe = only_marker [OF END_RES_marker(1) raw' assms(3)]
  have norm_rest: "replace_from CRLF [LF] (mid @ END_RES @ post) =
      replace_from CRLF [LF] mid @ END_RES @ replace_from CRLF [LF] post"
    using END_RES_marker by (rule crlf_to_lf_marker)
  have "\<not> sublist BEG_RES (replace_from CRLF [LF] (mid @ END_RES @ post))"
    using ob(2) BEG_RES_marker by (simp add: sublist_crlf_to_lf_iff)
  then have y: "replace_from BEG_RES [] (replace_from CRLF [LF] (mid @ END_RES @ post)) =
      replace_from CRLF [LF] mid @ END_RES @ replace_from CRLF [LF] post"
    using norm_rest by (simp add: replace_no_occ)
  have "\<not> sublist END_RES ((pre @ BEG_RES @ mid) @ butlast END_RES)"
    using oe(1) END_RES_marker(1) by (simp add: count_occ_zero)
  then have "\<not> sublist END_RES (mid @ butlast END_RES)"
    by (metis append.assoc sublist_append_leftI sublist_order.dual_order.trans)
  then have "count_occ END_RES (mid @ butlast END_RES) = 0"
    using END_RES_marker(1) by (simp add: count_occ_zero)
  then have no_end_mid: "\<not> sublist END_RES (replace_from CRLF [LF] mid @ butlast END_RES)"
    using END_RES_marker by (intro no_marker_before)
  then have "\<not> sublist END_RES (replace_from CRLF [LF] mid)"
    by (metis sublist_append_rightI sublist_order.dual_order.trans)
  then have e1: "count_occ END_RES (replace_from CRLF [LF] mid @ butlast END_RES) =
      count_occ END_RES (replace_from CRLF [LF] mid)"
    using no_end_mid END_RES_marker(1) by (simp add: count_occ_zero [symmetric])
  have e2: "count_occ END_RES (replace_from CRLF [LF] post) = 0"
    using oe(2) END_RES_marker by (simp add: count_occ_zero sublist_crlf_to_lf_iff)
  have "extract_results raw = Inr (replace_from END_RES [] (replace_from CRLF [LF] mid))"
    using assms(1) ob(1) y e1 e2 by (rule extract_results_general)
  then show ?thesis
    using \<open>\<not> sublist END_RES (replace_from CRLF [LF] mid)\<close> by (simp add: replace_no_occ)
qed

text \<open>
  C1 at the reply of the device to \<open>sysinfo -q hostname\<close>: the result is the line with
  a newline before it and one after it.
\<close>

theorem extract_results_one_pair_witness:
  "count_occ BEG_RES (BEG_RES @ CRLF @ ''hostname: esp-01'' @ CRLF @ END_RES @ CRLF) = 1 \<and>
   count_occ END_RES (BEG_RES @ CRLF @ ''hostname: esp-01'' @ CRLF @ END_RES @ CRLF) = 1 \<and>
   extract_results (BEG_RES @ CRLF @ ''hostname: esp-01'' @ CRLF @ END_RES @ CRLF) =
     Inr ([LF] @ ''hostname: esp-01'' @ [LF])"
proof -
  let ?mid = "CRLF @ ''hostname: esp-01'' @ CRLF"
  let ?raw = "BEG_RES @ CRLF @ ''hostname: esp-01'' @ CRLF @ END_RES @ CRLF"
  have shape: "?raw = [] @ BEG_RES @ ?mid @ END_RES @ CRLF"
    by simp
  have one_beg: "count_occ BEG_RES ?raw = 1"
    by code_simp
  have one_end: "count_occ END_RES ?raw = 1"
    by code_simp
  have norm: "replace_from CRLF [LF] ?mid = [LF] @ ''hostname: esp-01'' @ [LF]"
    by code_simp
  show ?thesis
    using extract_results_one_pair [OF shape one_beg one_end] one_beg one_end norm
    by simp
qed

text \<open>
  C1 (as stated) fails at that reply: the result is neither the bare line
  \<open>hostname: esp-01\<close> nor exactly the text between the markers, which has CRLF.
\<close>

theorem extract_results_one_pair_counterexample:
  "count_occ BEG_RES (BEG_RES @ CRLF @ ''hostname: esp-01'' @ CRLF @ END_RES @ CRLF) = 1 \<and>
   count_occ END_RES (BEG_RES @ CRLF @ ''hostname: esp-01'' @ CRLF @ END_RES @ CRLF) = 1 \<and>
   extract_results (BEG_RES @ CRLF @ ''hostname: esp-01'' @ CRLF @ END_RES @ CRLF) \<noteq>
     Inr ''hostname: esp-01'' \<and>
   extract_results (BEG_RES @ CRLF @ ''hostname: esp-01'' @ CRLF @ END_RES @ CRLF) \<noteq>
     Inr (CRLF @ ''hostname: esp-01'' @ CRLF)"
  by code_simp

text \<open>
  C2 (as amended). \<open>extract_results\<close> ends the process with the message
  \<open>No results found\<close> exactly when the raw output holds no BEGIN marker, and such an
  output is never a success. When the output holds a BEGIN marker, it ends the process
  with \<open>Result incomplete\<close> exactly when the text after the first BEGIN marker, with
  CRLF replaced by LF and every further BEGIN marker deleted, holds no END marker; when
  the BEGIN marker occurs once, that is exactly when no END marker follows it.
\<close>

theorem extract_results_errors:
  "((extract_results raw = Inl (error (ValueError ''No results found''))) =
      (\<not> sublist BEG_RES raw)) \<and>
   (\<not> sublist BEG_RES raw \<longrightarrow> (\<forall>r. extract_results raw \<noteq> Inr r)) \<and>
   (raw = pre @ BEG_RES @ rest \<and> count_occ BEG_RES (pre @ butlast BEG_RES) = 0 \<longrightarrow>
      (extract_results raw = Inl (error (ValueError ''Result incomplete''))) =
      (\<not> sublist END_RES (replace_from BEG_RES [] (replace_from CRLF [LF] rest)))) \<and>
   (raw = pre @ BEG_RES @ rest \<and> count_occ BEG_RES raw = 1 \<longrightarrow>
      (extract_results raw = Inl (error (ValueError ''Result incomplete''))) =
      (\<not> sublist END_RES rest))"
proof -
  have beg: "sublist BEG_RES (replace_from CRLF [LF] raw) = sublist BEG_RES raw"
    using BEG_RES_marker by (rule sublist_crlf_to_lf_iff)
  have a: "(extract_results raw = Inl (error (ValueError ''No results found''))) =
      (\<not> sublist BEG_RES raw)"
    using error_messages_differ by (auto simp: extract_results_eq beg)
  have d: "\<not> sublist BEG_RES raw \<longrightarrow> (\<forall>r. extract_results raw \<noteq> Inr r)"
    by (simp add: extract_results_eq beg)
  have b: "(extract_results raw = Inl (error (ValueError ''Result incomplete''))) =
      (\<not> sublist END_RES (replace_from BEG_RES [] (replace_from CRLF [LF] rest)))"
    if "raw = pre @ BEG_RES @ rest" "count_occ BEG_RES (pre @ butlast BEG_RES) = 0"
    using first_marker [OF that] by (simp add: extract_results_eq)
  have c: "(extract_results raw = Inl (error (ValueError ''Result incomplete''))) =
      (\<not> sublist END_RES rest)"
    if "raw = pre @ BEG_RES @ rest" "count_occ BEG_RES raw = 1"
  proof -
    note om = only_marker [OF BEG_RES_marker(1) that]
    have "\<not> sublist BEG_RES (replace_from CRLF [LF] rest)"
      using om(2) BEG_RES_marker by (simp add: sublist_crlf_to_lf_iff)
    then have "replace_from BEG_RES [] (replace_from CRLF [LF] rest) = replace_from CRLF [LF] rest"
      by (rule replace_no_occ)
    then show ?thesis
      using b [OF that(1) om(1)] END_RES_marker by (simp add: sublist_crlf_to_lf_iff)
  qed
  show ?thesis
    using a d b c by blast
qed

text \<open>
  C2 at an output without a BEGIN marker and at one with a BEGIN marker and no END marker.
\<close>

theorem extract_results_errors_witness:
  "extract_results ''>>> '' = Inl (error (ValueError ''No results found'')) \<and>
   extract_results (''>>> '' @ BEG_RES @ [LF] @ ''TRUE'') =
     Inl (error (ValueError ''Result incomplete''))"
proof -
  let ?raw = "''>>> '' @ BEG_RES @ [LF] @ ''TRUE''"
  have no_beg: "\<not> sublist BEG_RES ''>>> ''"
    by code_simp
  have shape: "?raw = ''>>> '' @ BEG_RES @ ([LF] @ ''TRUE'')"
    by simp
  have first: "count_occ BEG_RES (''>>> '' @ butlast BEG_RES) = 0"
    by code_simp
  have one: "count_occ BEG_RES ?raw = 1"
    by code_simp
  have no_end: "\<not> sublist END_RES ([LF] @ ''TRUE'')"
    by code_simp
  have no_end': "\<not> sublist END_RES (replace_from BEG_RES [] (replace_from CRLF [LF] ([LF] @ ''TRUE'')))"
    by code_simp
  show ?thesis
    using extract_results_errors [of "''>>> ''" "[]" "[]"]
      extract_results_errors [of ?raw "''>>> ''" "[LF] @ ''TRUE''"]
      no_beg shape first one no_end no_end'
    by simp
qed

text \<open>
  C2 (as stated) fails where a second BEGIN marker is deleted: an output with a BEGIN
  marker and no END marker at all is a success with an empty result, because deleting
  the second BEGIN marker joins the two halves of an END marker; and an output with an END
  marker after the first BEGIN marker is incomplete, because the second BEGIN marker
  shares its first five characters with the END marker before it.
\<close>

theorem extract_results_errors_counterexample:
  "sublist BEG_RES (BEG_RES @ ''##### END RES'' @ BEG_RES @ ''ULTS #####'') \<and>
   \<not> sublist END_RES (BEG_RES @ ''##### END RES'' @ BEG_RES @ ''ULTS #####'') \<and>
   extract_results (BEG_RES @ ''##### END RES'' @ BEG_RES @ ''ULTS #####'') = Inr [] \<and>
   sublist END_RES (''##### END RESULTS ##### BEGIN RESULTS #####'') \<and>
   extract_results (BEG_RES @ ''##### END RESULTS ##### BEGIN RESULTS #####'') =
     Inl (error (ValueError ''Result incomplete''))"
  by code_simp

text \<open>
  C7 (as amended). Of the text after the first BEGIN marker, with CRLF replaced by LF,
  \<open>extract_results\<close> deletes every further BEGIN marker before it looks for END
  markers. When the text so obtained is \<open>body\<close>, an END marker and \<open>post\<close>, with
  no END marker in \<open>post\<close> and none that begins in \<open>body\<close> and runs into that END
  marker, the result is \<open>body\<close> with every END marker in it deleted.
\<close>

theorem extract_results_embedded_markers:
  assumes "raw = pre @ BEG_RES @ rest"
    and "count_occ BEG_RES (pre @ butlast BEG_RES) = 0"
    and "replace_from BEG_RES [] (replace_from CRLF [LF] rest) = body @ END_RES @ post"
    and "count_occ END_RES (body @ butlast END_RES) = count_occ END_RES body"
    and "count_occ END_RES post = 0"
  shows "extract_results raw = Inr (replace_from END_RES [] body)"
  using assms by (rule extract_results_general)
text \<open>
  C7 at an output with two BEGIN markers and two END markers.
\<close>

theorem extract_results_embedded_markers_witness:
  "extract_results (''>>> '' @ CRLF @ BEG_RES @ ''a'' @ CRLF @ BEG_RES @ ''b'' @ END_RES @ ''c'' @
      END_RES @ CRLF @ ''>>> '') = Inr (''a'' @ [LF] @ ''bc'')"
proof -
  let ?pre = "''>>> '' @ CRLF"
  let ?rest = "''a'' @ CRLF @ BEG_RES @ ''b'' @ END_RES @ ''c'' @ END_RES @ CRLF @ ''>>> ''"
  let ?body = "''a'' @ [LF] @ ''b'' @ END_RES @ ''c''"
  let ?post = "[LF] @ ''>>> ''"
  have h1: "''>>> '' @ CRLF @ BEG_RES @ ''a'' @ CRLF @ BEG_RES @ ''b'' @ END_RES @ ''c'' @
      END_RES @ CRLF @ ''>>> '' = ?pre @ BEG_RES @ ?rest"
    by simp
  have h2: "count_occ BEG_RES (?pre @ butlast BEG_RES) = 0"
    by code_simp
  have h3: "replace_from BEG_RES [] (replace_from CRLF [LF] ?rest) = ?body @ END_RES @ ?post"
    by code_simp
  have h4: "count_occ END_RES (?body @ butlast END_RES) = count_occ END_RES ?body"
    by code_simp
  have h5: "count_occ END_RES ?post = 0"
    by code_simp
  have r: "replace_from END_RES [] ?body = ''a'' @ [LF] @ ''bc''"
    by code_simp
  show ?thesis
    using extract_results_embedded_markers [OF h1 h2 h3 h4 h5] r by simp
qed

text \<open>
  C7 (as stated) fails: the second BEGIN marker is not kept in the result, and neither is
  an END marker before the last one.
\<close>

theorem extract_results_embedded_markers_counterexample:
  "extract_results (BEG_RES @ ''a'' @ BEG_RES @ ''b'' @ END_RES) = Inr ''ab'' \<and>
   extract_results (BEG_RES @ ''a'' @ BEG_RES @ ''b'' @ END_RES) \<noteq> Inr (''a'' @ BEG_RES @ ''b'') \<and>
   extract_results (BEG_RES @ ''a'' @ END_RES @ ''b'' @ END_RES) = Inr ''ab'' \<and>
   extract_results (BEG_RES @ ''a'' @ END_RES @ ''b'' @ END_RES) \<noteq> Inr (''a'' @ END_RES @ ''b'')"
  by code_simp

section \<open>Remote statements\<close>

lemma set_py_replace_single:
  "set (py_replace [k] new s) = (set s - {k}) \<union> (if k \<in> set s then set new else {})"
  by (induction s) (auto simp: py_replace_single)

lemma substitute_no_terminator:
  "CR \<notin> set (substitute line) \<and> LF \<notin> set (substitute line)"
  by (simp add: substitute_def SUBSTITUTES_def set_py_replace_single
      CR_def LF_def BSLASH_def TAB_def SQUOTE_def)

lemma count_occ_no_head:
  "sep \<noteq> [] \<Longrightarrow> hd sep \<notin> set b \<Longrightarrow> count_occ sep (b @ t) = count_occ sep t"
  by (induction b) (auto simp: prefix_Cons neq_Nil_conv)

text \<open>
  C4 (as amended). Every statement that the encoders hand to \<open>serial_write\<close> (of
  \<open>cat\<close>, \<open>du\<close>, \<open>ls\<close>, \<open>sysinfo\<close>, \<open>restore\<close>, the \<open>is_dir\<close> probe, and the
  open, write and close statements of the file transfer) ends with a closing parenthesis
  and one line terminator CRLF; no blank line follows. In a write statement of the file
  transfer the escaped line holds neither CR nor LF, so that the terminator at the end is
  the only one in the statement.
\<close>

theorem statements_end_with_one_terminator:
  "suffix ('')'' @ CRLF) (cat_stmt argv) \<and>
   suffix ('')'' @ CRLF) (du_stmt args max_depth hr) \<and>
   suffix ('')'' @ CRLF) (ls_stmt args hr list_format rec) \<and>
   suffix ('')'' @ CRLF) (sysinfo_stmt q) \<and>
   suffix ('')'' @ CRLF) restore_stmt \<and>
   suffix ('')'' @ CRLF) (is_dir_stmt dest) \<and>
   suffix ('')'' @ CRLF) (fwrite_open_stmt dest) \<and>
   suffix ('')'' @ CRLF) (fwrite_write_stmt (substitute line)) \<and>
   suffix ('')'' @ CRLF) fwrite_close_stmt \<and>
   \<not> suffix (CRLF @ CRLF) (cat_stmt argv) \<and>
   \<not> suffix (CRLF @ CRLF) (fwrite_write_stmt (substitute line)) \<and>
   count_occ CRLF (fwrite_write_stmt (substitute line)) = 1 \<and>
   CR \<notin> set (substitute line) \<and> LF \<notin> set (substitute line)"
proof -
  have ends: "\<And>b. suffix ('')'' @ CRLF) (b @ '')'' @ CRLF)"
    by (simp add: suffix_def)
  have not_blank: "\<And>b. \<not> suffix (CRLF @ CRLF) (b @ '')'' @ CRLF)"
    by (auto simp: suffix_def CRLF_def CR_def LF_def append_eq_append_conv2 append_eq_Cons_conv
        Cons_eq_append_conv)
  have sub: "CR \<notin> set (substitute line)" "LF \<notin> set (substitute line)"
    using substitute_no_terminator by simp_all
  have body: "CR \<notin> set (''fd.write('' @ [SQUOTE] @ substitute line @ [SQUOTE] @ ''.encode('' @
      [DQUOTE] @ ''utf-8'' @ [DQUOTE] @ ''))'')"
    using sub(1) by (simp add: CR_def SQUOTE_def DQUOTE_def)
  have "count_occ CRLF ((''fd.write('' @ [SQUOTE] @ substitute line @ [SQUOTE] @ ''.encode('' @
      [DQUOTE] @ ''utf-8'' @ [DQUOTE] @ ''))'') @ CRLF) = count_occ CRLF CRLF"
    by (rule count_occ_no_head) (use body in \<open>simp_all add: CRLF_def\<close>)
  then have one: "count_occ CRLF (fwrite_write_stmt (substitute line)) = 1"
    by (simp add: fwrite_write_stmt_def CRLF_def CR_def LF_def)
  have "suffix ('')'' @ CRLF) (cat_stmt argv)"
    unfolding cat_stmt_def using ends [of "''cat('' @ argv_to_str argv"] by simp
  moreover have "suffix ('')'' @ CRLF) (du_stmt args max_depth hr)"
    unfolding du_stmt_def
    using ends [of "''du('' @ argv_to_str args @ '', max_depth='' @ str_int max_depth @
      '', human_readable='' @ str_bool hr"] by simp
  moreover have "suffix ('')'' @ CRLF) (ls_stmt args hr list_format rec)"
    unfolding ls_stmt_def
    using ends [of "''ls('' @ argv_to_str args @ '', human_readable='' @ str_bool hr @
      '', list_format='' @ str_bool list_format @ '', rec='' @ str_bool rec"] by simp
  moreover have "suffix ('')'' @ CRLF) (sysinfo_stmt q)"
    unfolding sysinfo_stmt_def
    using ends [of "''sysinfo(query='' @ [DQUOTE] @ q @ [DQUOTE]"] by simp
  moreover have "suffix ('')'' @ CRLF) restore_stmt"
    unfolding restore_stmt_def using ends [of "''restore(''"] by simp
  moreover have "suffix ('')'' @ CRLF) (is_dir_stmt dest)"
    unfolding is_dir_stmt_def using ends [of "''is_dir('' @ [DQUOTE] @ dest @ [DQUOTE]"] by simp
  moreover have "suffix ('')'' @ CRLF) (fwrite_open_stmt dest)"
    unfolding fwrite_open_stmt_def
    using ends [of "''fd = open('' @ [DQUOTE] @ dest @ [DQUOTE] @ '', '' @ [DQUOTE] @ ''w'' @ [DQUOTE]"]
    by simp
  moreover have "suffix ('')'' @ CRLF) (fwrite_write_stmt (substitute line))"
    unfolding fwrite_write_stmt_def
    using ends [of "''fd.write('' @ [SQUOTE] @ substitute line @ [SQUOTE] @ ''.encode('' @
      [DQUOTE] @ ''utf-8'' @ [DQUOTE] @ '')''"] by simp
  moreover have "suffix ('')'' @ CRLF) fwrite_close_stmt"
    unfolding fwrite_close_stmt_def using ends [of "''fd.close(''"] by simp
  moreover have "\<not> suffix (CRLF @ CRLF) (cat_stmt argv)"
    unfolding cat_stmt_def using not_blank [of "''cat('' @ argv_to_str argv"] by simp
  moreover have "\<not> suffix (CRLF @ CRLF) (fwrite_write_stmt (substitute line))"
    unfolding fwrite_write_stmt_def
    using not_blank [of "''fd.write('' @ [SQUOTE] @ substitute line @ [SQUOTE] @ ''.encode('' @
      [DQUOTE] @ ''utf-8'' @ [DQUOTE] @ '')''"] by simp
  ultimately show ?thesis
    using one sub by blast
qed

text \<open>
  C4 (as stated) fails: the statement of \<open>cat\<close> for one file does not end with two line
  terminators, and an argument that holds a terminator is sent as it is.
\<close>

theorem statements_blank_line_counterexample:
  "\<not> suffix (CRLF @ CRLF) (cat_stmt [''a'']) \<and>
   count_occ CRLF (cat_stmt [''a'' @ CRLF @ ''b'']) = 2"
  by (simp add: cat_stmt_def CRLF_def CR_def LF_def DQUOTE_def suffix_def
      append_eq_Cons_conv Cons_eq_append_conv)

section \<open>Chunked writing\<close>

lemma written_append [simp]: "written (a @ b) = written a @ written b"
  by (induction a rule: written.induct) simp_all

lemma serial_write_loop_stop:
  "length (encode_utf8 (py_slice offset end buf)) \<noteq> DEFAULT_SER_WRBUF_SIZE \<Longrightarrow>
   serial_write_loop buf t_wait offset end w =
     (if t_wait > 0
      then time_sleep t_wait (log_event (Write (encode_utf8 (py_slice offset end buf))) w)
      else log_event (Write (encode_utf8 (py_slice offset end buf))) w)"
  by (subst serial_write_loop.simps) (simp add: Let_def ser_write_def)

lemma serial_write_loop_go:
  "length (encode_utf8 (py_slice offset end buf)) = DEFAULT_SER_WRBUF_SIZE \<Longrightarrow>
   serial_write_loop buf t_wait offset end w =
     serial_write_loop buf t_wait (offset + DEFAULT_SER_WRBUF_SIZE)
       (offset + DEFAULT_SER_WRBUF_SIZE + DEFAULT_SER_WRBUF_SIZE)
       (if t_wait > 0
        then time_sleep t_wait (log_event (Write (encode_utf8 (py_slice offset end buf))) w)
        else log_event (Write (encode_utf8 (py_slice offset end buf))) w)"
  by (subst serial_write_loop.simps) (simp add: Let_def ser_write_def)

lemma example_encoded_length: "length (encode_utf8 (CHR 0xE9 # replicate 510 (CHR ''a''))) = 512"
  by (simp add: encode_utf8_def encode_char_def length_concat sum_list_replicate)

lemma example_chunk_length: "length (encode_utf8 (CHR 0xE9 # replicate 255 (CHR ''a''))) = 257"
  by (simp add: encode_utf8_def encode_char_def length_concat sum_list_replicate)

lemma length_encode_ascii: "is_ascii s \<Longrightarrow> length (encode_utf8 s) = length s"
  by (induction s) (simp_all add: is_ascii_def encode_utf8_def encode_char_def)

lemma encode_utf8_append: "encode_utf8 (a @ b) = encode_utf8 a @ encode_utf8 b"
  by (simp add: encode_utf8_def)

lemma is_ascii_take: "is_ascii s \<Longrightarrow> is_ascii (take n s)"
  unfolding is_ascii_def list_all_iff by (auto dest: in_set_takeD)

lemma is_ascii_drop: "is_ascii s \<Longrightarrow> is_ascii (drop n s)"
  unfolding is_ascii_def list_all_iff by (auto dest: in_set_dropD)

lemma full_chunk_offset:
  "length (encode_utf8 (py_slice offset end buf)) = DEFAULT_SER_WRBUF_SIZE \<Longrightarrow> offset < length buf"
proof -
  assume "length (encode_utf8 (py_slice offset end buf)) = DEFAULT_SER_WRBUF_SIZE"
  then have "py_slice offset end buf \<noteq> []"
    by (auto simp: encode_utf8_def DEFAULT_SER_WRBUF_SIZE_def)
  then show ?thesis
    by (simp add: py_slice_def)
qed



lemma serial_write_loop_ascii:
  "is_ascii buf \<Longrightarrow>
   written (trace (serial_write_loop buf t_wait offset (offset + DEFAULT_SER_WRBUF_SIZE) w)) =
     written (trace w) @ encode_utf8 (drop offset buf)"
proof (induction "length buf - offset" arbitrary: offset w rule: less_induct)
  case less
  let ?chunk = "py_slice offset (offset + DEFAULT_SER_WRBUF_SIZE) buf"
  define w' where "w' = (if t_wait > 0
        then time_sleep t_wait (log_event (Write (encode_utf8 ?chunk)) w)
        else log_event (Write (encode_utf8 ?chunk)) w)"
  have w': "written (trace w') = written (trace w) @ encode_utf8 ?chunk"
    by (simp add: w'_def time_sleep_def log_event_def)
  have chunk: "?chunk = take DEFAULT_SER_WRBUF_SIZE (drop offset buf)"
    by (simp add: py_slice_def take_drop add.commute)
  have len: "length (encode_utf8 ?chunk) = length ?chunk"
    using less.prems by (simp add: chunk is_ascii_take is_ascii_drop length_encode_ascii)
  show ?case
  proof (cases "length (encode_utf8 ?chunk) = DEFAULT_SER_WRBUF_SIZE")
    case False
    then have "length (drop offset buf) < DEFAULT_SER_WRBUF_SIZE"
      using len by (simp add: chunk)
    then have "?chunk = drop offset buf"
      by (simp add: chunk)
    moreover have "serial_write_loop buf t_wait offset (offset + DEFAULT_SER_WRBUF_SIZE) w = w'"
      using False by (simp add: serial_write_loop_stop w'_def)
    ultimately show ?thesis using w' by simp
  next
    case True
    then have "offset < length buf" by (rule full_chunk_offset)
    then have "length buf - (offset + DEFAULT_SER_WRBUF_SIZE) < length buf - offset"
      by (simp add: DEFAULT_SER_WRBUF_SIZE_def)
    then have "written (trace (serial_write_loop buf t_wait (offset + DEFAULT_SER_WRBUF_SIZE)
        (offset + DEFAULT_SER_WRBUF_SIZE + DEFAULT_SER_WRBUF_SIZE) w')) =
        written (trace w') @ encode_utf8 (drop (offset + DEFAULT_SER_WRBUF_SIZE) buf)"
      using less by blast
    moreover have "serial_write_loop buf t_wait offset (offset + DEFAULT_SER_WRBUF_SIZE) w =
        serial_write_loop buf t_wait (offset + DEFAULT_SER_WRBUF_SIZE)
          (offset + DEFAULT_SER_WRBUF_SIZE + DEFAULT_SER_WRBUF_SIZE) w'"
      using serial_write_loop_go [OF True, of t_wait w] by (simp add: w'_def)
    moreover have "encode_utf8 ?chunk @ encode_utf8 (drop (offset + DEFAULT_SER_WRBUF_SIZE) buf) =
        encode_utf8 (drop offset buf)"
    proof -
      have "drop (offset + DEFAULT_SER_WRBUF_SIZE) buf = drop DEFAULT_SER_WRBUF_SIZE (drop offset buf)"
        by (simp add: add.commute)
      then show ?thesis
        unfolding chunk encode_utf8_append [symmetric] by (simp only: append_take_drop_id)
    qed
    ultimately show ?thesis using w' by simp
  qed
qed

lemma serial_write_ascii:
  "is_ascii buf \<Longrightarrow>
   written (trace (serial_write buf t_wait w)) = written (trace w) @ encode_utf8 buf"
  using serial_write_loop_ascii [of buf _ 0 w] by (simp add: serial_write_def)

text \<open>
  C3. A buffer whose encoded length is a multiple of the chunk size should be sent whole.
  The termination proof of \<open>serial_write_loop\<close> shows that \<open>serial_write\<close> always
  returns, and \<open>serial_write_ascii\<close> that an ASCII buffer is sent whole. But the loop
  slices \<open>buf\<close> by characters and compares the number of encoded bytes with the chunk
  size: for the buffer made of the letter e with an acute accent (two bytes) followed by
  510 letters a, 512 bytes in all, the first chunk of 256 characters has 257 bytes, the
  loop stops after it, and 255 characters are never sent.
\<close>

theorem serial_write_non_ascii_truncated:
  "length (encode_utf8 (CHR 0xE9 # replicate 510 (CHR ''a''))) = 2 * DEFAULT_SER_WRBUF_SIZE \<and>
   trace (serial_write (CHR 0xE9 # replicate 510 (CHR ''a'')) None world0) =
     [Write (encode_utf8 (CHR 0xE9 # replicate 255 (CHR ''a''))), Sleep DEFAULT_WAIT] \<and>
   length (written (trace (serial_write (CHR 0xE9 # replicate 510 (CHR ''a'')) None world0))) = 257 \<and>
   written (trace (serial_write (CHR 0xE9 # replicate 510 (CHR ''a'')) None world0)) \<noteq>
     encode_utf8 (CHR 0xE9 # replicate 510 (CHR ''a''))"
proof -
  let ?buf = "CHR 0xE9 # replicate 510 (CHR ''a'')"
  have slice: "py_slice 0 DEFAULT_SER_WRBUF_SIZE ?buf = CHR 0xE9 # replicate 255 (CHR ''a'')"
    by (simp add: py_slice_def DEFAULT_SER_WRBUF_SIZE_def take_Cons')
  have "length (encode_utf8 (py_slice 0 DEFAULT_SER_WRBUF_SIZE ?buf)) \<noteq> DEFAULT_SER_WRBUF_SIZE"
    unfolding slice using example_chunk_length by (simp add: DEFAULT_SER_WRBUF_SIZE_def)
  then have "serial_write ?buf None world0 =
      time_sleep DEFAULT_WAIT (log_event (Write (encode_utf8 (py_slice 0 DEFAULT_SER_WRBUF_SIZE ?buf))) world0)"
    by (simp add: serial_write_def serial_write_loop_stop DEFAULT_WAIT_def)
  then have tr: "trace (serial_write ?buf None world0) =
      [Write (encode_utf8 (CHR 0xE9 # replicate 255 (CHR ''a''))), Sleep DEFAULT_WAIT]"
    by (simp only: slice) (simp add: time_sleep_def log_event_def world0_def)
  have len: "length (written (trace (serial_write ?buf None world0))) = 257"
    by (simp only: tr) (simp add: example_chunk_length)
  then have "length (written (trace (serial_write ?buf None world0))) \<noteq> length (encode_utf8 ?buf)"
    using example_encoded_length by simp
  then have "written (trace (serial_write ?buf None world0)) \<noteq> encode_utf8 ?buf"
    by auto
  then show ?thesis
    using tr len example_encoded_length by (simp add: DEFAULT_SER_WRBUF_SIZE_def)
qed


section \<open>The file transfer\<close>

















section \<open>Exit codes\<close>

text \<open>The exit status that \<open>error\<close> gives, by the attribute \<open>errno\<close> of the error.\<close>

lemma error_exit_status:
  "exit_status (error err) =
     (case err_errno err of
        None \<Rightarrow> EXIT_FAILURE
      | Some None \<Rightarrow> 0
      | Some (Some n) \<Rightarrow> n)"
  by (simp add: error_def Let_def split: option.splits)


text \<open>
  C8. The exit status of the error path should be the error number when the error has
  one and 255 otherwise. An \<open>OSError\<close> built from a message alone (as the serial library
  raises for a failed write) has the attribute \<open>errno\<close> with the value \<open>None\<close>:
  \<open>error\<close> passes it to \<open>sys.exit\<close>, and the process ends with status 0, the status
  of success.
\<close>

theorem error_exit_status_errno_none:
  "err_errno (OSError None ''write failed'') = Some None \<and>
   exit_status (error (OSError None ''write failed'')) = EXIT_SUCCESS \<and>
   exit_status (error (OSError None ''write failed'')) \<noteq> EXIT_FAILURE"
  by (simp add: error_def EXIT_SUCCESS_def EXIT_FAILURE_def)


section \<open>The functor decorator\<close>

text \<open>
  C9. The first call of a name decorated with \<open>functor\<close> hands its arguments to the
  constructor and returns the instance (or the constructor's exception): it never runs
  \<open>__call__\<close> and prints nothing. A call made once an instance exists runs
  \<open>__call__\<close>. The first call of \<open>sysinfo\<close> with the keyword argument \<open>query\<close>
  raises TypeError, leaves no instance behind and prints nothing.
\<close>

theorem functor_first_call:
  "get_instance cls args (None, out) =
     (case cls_init cls args of
        Inl err \<Rightarrow> (CtorRaised err, None, out)
      | Inr inst \<Rightarrow> (Instance inst, Some inst, out)) \<and>
   (\<forall>r. fst (get_instance cls args (None, out)) \<noteq> Called r) \<and>
   snd (snd (get_instance cls args (None, out))) = out \<and>
   get_instance cls args (Some inst, out) =
     (Called (fst (cls_call cls inst args out)), Some inst, snd (cls_call cls inst args out)) \<and>
   dev_sysinfo dev ([], [(''query'', q)]) (None, out) =
     (CtorRaised (TypeError ''unexpected keyword argument''), None, out)"
  by (simp add: get_instance_def dev_sysinfo_def sysinfo_cls_def sysinfo_init_def
      split: sum.splits)

section \<open>human\_readable\<close>










end
